theory Spec2Isabelle
  imports Main "HOL-Library.Multiset"
begin

section \<open>The entities of the graph\<close>

text \<open>
  \<^verbatim>\<open>osm_data.py\<close> imports its entity classes from \<^verbatim>\<open>osm_geometries.py\<close>:
  \<^verbatim>\<open>from .osm_geometries import OsmBoundary, OsmPoint, OsmWay, OsmRelation\<close>.
  The records below follow the data model of the specification (section 3). Python
  objects are referred to by their identity; identities are unique, so a reference
  to an object is its identity together with its kind.
\<close>

datatype error = IndexError | AttributeError | ValueError | OverflowError

type_synonym tags = "string \<rightharpoonup> string"

datatype ref = PointRef int | WayRef int | RelationRef int

text \<open>
  Modelled from the spec: the class \<^verbatim>\<open>OsmPoint\<close> (identity, position, tag map,
  set of parents). The type \<open>'c\<close> is the type of a coordinate (a Python float).
\<close>

record 'c osm_point =
  point_id :: int
  point_x :: 'c
  point_y :: 'c
  point_tags :: tags
  point_parents :: "ref set"

text \<open>
  Modelled from the spec: the class \<^verbatim>\<open>OsmWay\<close> (identity, tag map, ordered
  sequence of point references, set of parents). A point is referred to by its identity.
\<close>

record osm_way =
  way_id :: int
  way_tags :: tags
  way_nodes :: "int list"
  way_parents :: "ref set"

text \<open>
  Modelled from the spec: the class \<^verbatim>\<open>OsmRelation\<close> (identity, tag map, ordered
  sequence of (member, role) pairs, set of parents).
\<close>

record osm_relation =
  relation_id :: int
  relation_tags :: tags
  relation_members :: "(ref \<times> string) list"
  relation_parents :: "ref set"

text \<open>
  Modelled from the spec: \<^verbatim>\<open>OsmRelation.get_member_role(member)\<close>, the role under
  which \<open>member\<close> is listed in the relation (that of its first entry), the empty
  string when it is not a member.
\<close>

definition get_member_role :: "osm_relation \<Rightarrow> ref \<Rightarrow> string" where
  "get_member_role rel member =
     (case filter (\<lambda>m. fst m = member) (relation_members rel) of
        [] \<Rightarrow> ''''
      | m # _ \<Rightarrow> snd m)"

section \<open>Duplicate detection\<close>

text \<open>
  The loop of \<^verbatim>\<open>__get_ordered_nodes\<close>:
  \<^verbatim>\<open>
  lowest_index = 0
  lowest_node_id = nodes[0].id
  for i in range(1, len(nodes)):
      if nodes[i].id < lowest_node_id:
          lowest_node_id = nodes[i].id
          lowest_index = i
  \<close>
  A node sequence is the list of the identities of its nodes. The loop state is the
  pair \<open>(lowest_index, lowest_node_id)\<close>.
\<close>

definition lowest_index_step :: "int list \<Rightarrow> nat \<Rightarrow> nat \<times> int \<Rightarrow> nat \<times> int" where
  "lowest_index_step nodes i st =
     (if nodes ! i < snd st then (i, nodes ! i) else st)"

definition lowest_index :: "int list \<Rightarrow> nat" where
  "lowest_index nodes =
     fst (fold (lowest_index_step nodes) [1..<length nodes] (0, nodes ! 0))"

text \<open>
  \<^verbatim>\<open>
  def __get_ordered_nodes(self, nodes):
      is_closed = len(nodes) > 2 and nodes[0].id == nodes[-1].id
      if is_closed:
          ...
          return nodes[lowest_index:-1] + nodes[:lowest_index+1]
      else:
          return nodes
  \<close>
  The slice \<^verbatim>\<open>nodes[lowest_index:-1]\<close> drops \<open>lowest_index\<close> elements of the list
  without its last element; \<^verbatim>\<open>nodes[:lowest_index+1]\<close> takes the first
  \<open>lowest_index + 1\<close> elements.
\<close>

definition is_closed :: "int list \<Rightarrow> bool" where
  "is_closed nodes \<longleftrightarrow> length nodes > 2 \<and> nodes ! 0 = nodes ! (length nodes - 1)"

definition get_ordered_nodes :: "int list \<Rightarrow> int list" where
  "get_ordered_nodes nodes =
     (if is_closed nodes
      then drop (lowest_index nodes) (butlast nodes) @ take (lowest_index nodes + 1) nodes
      else nodes)"

text \<open>
  \<^verbatim>\<open>
  def __verify_duplicate_ways(self, potential_duplicate_ways, nodes):
      duplicate_ways = []
      ordered_nodes = self.__get_ordered_nodes(nodes)
      for dupway in potential_duplicate_ways:
          if len(dupway.nodes) == len(nodes):
              dupnodes = self.__get_ordered_nodes(dupway.nodes)
              if dupnodes == ordered_nodes:
                  duplicate_ways.append((dupway, 'way'))
              elif dupnodes == list(reversed(ordered_nodes)):
                  duplicate_ways.append((dupway, 'reverse_way'))
      return duplicate_ways
  \<close>
\<close>

fun verify_duplicate_ways :: "osm_way list \<Rightarrow> int list \<Rightarrow> (osm_way \<times> string) list" where
  "verify_duplicate_ways [] nodes = []"
| "verify_duplicate_ways (dupway # rest) nodes =
     (if length (way_nodes dupway) = length nodes
      then (if get_ordered_nodes (way_nodes dupway) = get_ordered_nodes nodes
            then [(dupway, ''way'')]
            else if get_ordered_nodes (way_nodes dupway) = rev (get_ordered_nodes nodes)
            then [(dupway, ''reverse_way'')]
            else [])
      else [])
     @ verify_duplicate_ways rest nodes"

text \<open>
  \<^verbatim>\<open>
  def __verify_duplicate_relations(self, potential_duplicate_relations, members):
      duplicate_relations = []
      for duprelation in potential_duplicate_relations:
          if duprelation.members == members:
              duplicate_relations.append(duprelation)
      return duplicate_relations
  \<close>
\<close>

fun verify_duplicate_relations ::
  "osm_relation list \<Rightarrow> (ref \<times> string) list \<Rightarrow> osm_relation list" where
  "verify_duplicate_relations [] members = []"
| "verify_duplicate_relations (duprelation # rest) members =
     (if relation_members duprelation = members then [duprelation] else [])
     @ verify_duplicate_relations rest members"

text \<open>
  The rotation of a closed node sequence, as the claims on ring canonicalization use
  it (it is not a function of the source): the ring without its closing node is
  rotated by \<open>k\<close> positions and closed again at its new first node, as in
  \<^verbatim>\<open>[n0,n1,n2,n0]\<close> rotated to \<^verbatim>\<open>[n1,n2,n0,n1]\<close>.
\<close>

definition rotate_ring :: "nat \<Rightarrow> int list \<Rightarrow> int list" where
  "rotate_ring k nodes = rotate k (butlast nodes) @ [hd (rotate k (butlast nodes))]"

section \<open>The store and its options\<close>

text \<open>
  The options of \<^verbatim>\<open>OsmData.__init__\<close> that the functions below read. The translation
  object is external: its methods \<^verbatim>\<open>merge_tags\<close> and
  \<^verbatim>\<open>get_unique_node_identifier\<close> are parameters. A merge policy returns the merged
  tags, or \<open>None\<close> when it declines.

  \<^verbatim>\<open>__round_number\<close> is \<^verbatim>\<open>int(round(n * 10**self.rounding_digits))\<close>, an expression of
  floating-point arithmetic; it is a parameter as well, the quantizer of a coordinate.
  Python's \<^verbatim>\<open>round\<close> raises \<^verbatim>\<open>ValueError\<close> on a coordinate that is not a number and
  \<^verbatim>\<open>OverflowError\<close> on an infinite one (and so does the product when it overflows), so
  the quantizer returns an integer or an error.

  A key of \<^verbatim>\<open>__unique_node_index\<close> is the tuple \<^verbatim>\<open>(rx, ry)\<close> of a way-member node,
  or whatever the translation returns for a point feature (which may be such a tuple
  too).
\<close>

datatype 'k node_key = Coordinates int int | Identifier 'k

record ('c, 'k) options =
  round_number :: "'c \<Rightarrow> error + int"
  max_points_in_way :: int
  merge_tags :: "string \<Rightarrow> tags \<Rightarrow> tags \<Rightarrow> tags option"
  get_unique_node_identifier :: "int \<Rightarrow> int \<Rightarrow> tags \<Rightarrow> 'k node_key"

text \<open>
  The mutable part of \<^verbatim>\<open>OsmData\<close>: \<^verbatim>\<open>__nodes\<close>, \<^verbatim>\<open>__unique_node_index\<close>,
  \<^verbatim>\<open>__ways\<close> and \<^verbatim>\<open>__relations\<close>, each object with its current fields; the
  counter that identities are drawn from; and the warnings logged so far (messages of
  the debug level are left out). Every function that mutates the store takes it and
  returns the new one.
\<close>

record ('c, 'k) osm_data =
  osm_nodes :: "'c osm_point list"
  unique_node_index :: "'k node_key \<rightharpoonup> nat list"
  osm_ways :: "osm_way list"
  osm_relations :: "osm_relation list"
  element_id_counter :: int
  warnings :: "string list"

definition init_osm_data :: "('c, 'k) osm_data" where
  "init_osm_data =
     \<lparr>osm_nodes = [], unique_node_index = Map.empty, osm_ways = [], osm_relations = [],
      element_id_counter = 0, warnings = []\<rparr>"

text \<open>
  Modelled from the spec: the constructors of \<^verbatim>\<open>OsmPoint\<close>, \<^verbatim>\<open>OsmWay\<close> and
  \<^verbatim>\<open>OsmRelation\<close>. An identity is unique and monotonically assigned: it is the next
  value of the counter. A new object has its tags, no parents, and (a way, a relation)
  no nodes or members.
\<close>

definition OsmPoint ::
  "'c \<Rightarrow> 'c \<Rightarrow> tags \<Rightarrow> ('c, 'k) osm_data \<Rightarrow> 'c osm_point \<times> ('c, 'k) osm_data" where
  "OsmPoint x y tgs s =
     (\<lparr>point_id = element_id_counter s + 1, point_x = x, point_y = y, point_tags = tgs,
       point_parents = {}\<rparr>,
      s\<lparr>element_id_counter := element_id_counter s + 1\<rparr>)"

definition OsmWay :: "tags \<Rightarrow> ('c, 'k) osm_data \<Rightarrow> osm_way \<times> ('c, 'k) osm_data" where
  "OsmWay tgs s =
     (\<lparr>way_id = element_id_counter s + 1, way_tags = tgs, way_nodes = [], way_parents = {}\<rparr>,
      s\<lparr>element_id_counter := element_id_counter s + 1\<rparr>)"

definition OsmRelation :: "tags \<Rightarrow> ('c, 'k) osm_data \<Rightarrow> osm_relation \<times> ('c, 'k) osm_data" where
  "OsmRelation tgs s =
     (\<lparr>relation_id = element_id_counter s + 1, relation_tags = tgs, relation_members = [],
       relation_parents = {}\<rparr>,
      s\<lparr>element_id_counter := element_id_counter s + 1\<rparr>)"

section \<open>Interning nodes\<close>

text \<open>
  The loop of \<^verbatim>\<open>__add_node\<close> over the bucket of a key:
  \<^verbatim>\<open>
  for index in self.__unique_node_index[unique_node_id]:
      duplicate_node = self.__nodes[index]
      merged_tags = self.translation.merge_tags('node', duplicate_node.tags, tags)
      if merged_tags is not None:
          duplicate_node.tags = merged_tags
          return duplicate_node
  \<close>
  The result is \<open>Some\<close> of the node returned from inside the loop, \<open>None\<close> when the
  loop ends without a merge. Reading \<^verbatim>\<open>self.__nodes[index]\<close> out of range raises.
\<close>

fun merge_duplicate_node ::
  "('c, 'k) options \<Rightarrow> tags \<Rightarrow> nat list \<Rightarrow> ('c, 'k) osm_data
     \<Rightarrow> error + ('c osm_point \<times> ('c, 'k) osm_data) option" where
  "merge_duplicate_node opts tgs [] s = Inr None"
| "merge_duplicate_node opts tgs (index # rest) s =
     (if index < length (osm_nodes s)
      then (case merge_tags opts ''node'' (point_tags (osm_nodes s ! index)) tgs of
              Some merged_tags \<Rightarrow>
                Inr (Some ((osm_nodes s ! index)\<lparr>point_tags := merged_tags\<rparr>,
                           s\<lparr>osm_nodes := (osm_nodes s)
                                [index := (osm_nodes s ! index)\<lparr>point_tags := merged_tags\<rparr>]\<rparr>))
            | None \<Rightarrow> merge_duplicate_node opts tgs rest s)
      else Inl IndexError)"

text \<open>
  \<^verbatim>\<open>
  def __add_node(self, x, y, tags, is_way_member):
      rx = self.__round_number(x)
      ry = self.__round_number(y)
      unique_node_id = None
      if is_way_member:
          unique_node_id = (rx, ry)
      else:
          unique_node_id = self.translation.get_unique_node_identifier(rx, ry, tags)
      if unique_node_id in self.__unique_node_index:
          for index in self.__unique_node_index[unique_node_id]:
              ...
          node = OsmPoint(x, y, tags)
          self.__unique_node_index[unique_node_id].append(len(self.__nodes))
          self.__nodes.append(node)
          return node
      else:
          node = OsmPoint(x, y, tags)
          self.__unique_node_index[unique_node_id] = [ len(self.__nodes) ]
          self.__nodes.append(node)
          return node
  \<close>
\<close>

definition unique_node_id :: "('c, 'k) options \<Rightarrow> int \<Rightarrow> int \<Rightarrow> tags \<Rightarrow> bool \<Rightarrow> 'k node_key" where
  "unique_node_id opts rx ry tgs is_way_member =
     (if is_way_member then Coordinates rx ry else get_unique_node_identifier opts rx ry tgs)"

definition append_node ::
  "'k node_key \<Rightarrow> nat list \<Rightarrow> 'c \<Rightarrow> 'c \<Rightarrow> tags \<Rightarrow> ('c, 'k) osm_data
     \<Rightarrow> 'c osm_point \<times> ('c, 'k) osm_data" where
  "append_node key bucket x y tgs s =
     (case OsmPoint x y tgs s of
        (node, s1) \<Rightarrow>
          (node, s1\<lparr>unique_node_index := (unique_node_index s1)(key \<mapsto> bucket @ [length (osm_nodes s1)]),
                    osm_nodes := osm_nodes s1 @ [node]\<rparr>))"

text \<open>The statement \<^verbatim>\<open>if unique_node_id in self.__unique_node_index: ... else: ...\<close>.\<close>

definition intern_node ::
  "('c, 'k) options \<Rightarrow> 'k node_key \<Rightarrow> 'c \<Rightarrow> 'c \<Rightarrow> tags \<Rightarrow> ('c, 'k) osm_data
     \<Rightarrow> error + 'c osm_point \<times> ('c, 'k) osm_data" where
  "intern_node opts key x y tgs s =
     (case unique_node_index s key of
        Some bucket \<Rightarrow>
          (case merge_duplicate_node opts tgs bucket s of
             Inl e \<Rightarrow> Inl e
           | Inr (Some found) \<Rightarrow> Inr found
           | Inr None \<Rightarrow> Inr (append_node key bucket x y tgs s))
      | None \<Rightarrow> Inr (append_node key [] x y tgs s))"

definition add_node ::
  "('c, 'k) options \<Rightarrow> 'c \<Rightarrow> 'c \<Rightarrow> tags \<Rightarrow> bool \<Rightarrow> ('c, 'k) osm_data
     \<Rightarrow> error + 'c osm_point \<times> ('c, 'k) osm_data" where
  "add_node opts x y tgs is_way_member s =
     (case round_number opts x of
        Inl e \<Rightarrow> Inl e
      | Inr rx \<Rightarrow>
          (case round_number opts y of
             Inl e \<Rightarrow> Inl e
           | Inr ry \<Rightarrow>
               intern_node opts (unique_node_id opts rx ry tgs is_way_member) x y tgs s))"

text \<open>
  The buckets of the index hold positions of \<^verbatim>\<open>__nodes\<close>: every position that
  \<^verbatim>\<open>__add_node\<close> stores is the length of the list just before the node is appended.
\<close>

definition index_in_range :: "('c, 'k) osm_data \<Rightarrow> bool" where
  "index_in_range s \<longleftrightarrow>
     (\<forall>bucket \<in> ran (unique_node_index s). \<forall>i \<in> set bucket. i < length (osm_nodes s))"

section \<open>Two merge policies\<close>

text \<open>
  Two translations, used to instantiate the theorems below: one never merges, one
  always merges (to the union of the tags). Coordinates are integers here and are
  quantized by dropping the last decimal digit.
\<close>

definition never_merge :: "(int, unit) options" where
  "never_merge = \<lparr>round_number = (\<lambda>c. Inr (c div 10)), max_points_in_way = 1800,
     merge_tags = (\<lambda>kind a b. None),
     get_unique_node_identifier = (\<lambda>rx ry t. Coordinates rx ry)\<rparr>"

definition always_merge :: "(int, unit) options" where
  "always_merge = \<lparr>round_number = (\<lambda>c. Inr (c div 10)), max_points_in_way = 1800,
     merge_tags = (\<lambda>kind a b. Some (a ++ b)),
     get_unique_node_identifier = (\<lambda>rx ry t. Coordinates rx ry)\<rparr>"

text \<open>
  A coordinate that is a number, not a number, or infinite, and the translation that
  always merges, over such coordinates: the quantizer raises as Python's \<^verbatim>\<open>round\<close>
  does.
\<close>

datatype float = Number int | NaN | Infinity

definition round_float :: "float \<Rightarrow> error + int" where
  "round_float c =
     (case c of Number n \<Rightarrow> Inr (n div 10) | NaN \<Rightarrow> Inl ValueError | Infinity \<Rightarrow> Inl OverflowError)"

definition always_merge_float :: "(float, unit) options" where
  "always_merge_float = \<lparr>round_number = round_float, max_points_in_way = 1800,
     merge_tags = (\<lambda>kind a b. Some (a ++ b)),
     get_unique_node_identifier = (\<lambda>rx ry t. Coordinates rx ry)\<rparr>"

section \<open>Splitting long ways\<close>

text \<open>
  Assigning to a field of an object of the store (\<^verbatim>\<open>way.nodes = nodes\<close>,
  \<^verbatim>\<open>way.tags = merged_tags\<close>, \<^verbatim>\<open>rel.members.append(m)\<close>): the object is found by
  its identity.
\<close>

definition set_way_nodes :: "int \<Rightarrow> int list \<Rightarrow> ('c, 'k) osm_data \<Rightarrow> ('c, 'k) osm_data" where
  "set_way_nodes wid nds s =
     s\<lparr>osm_ways := map (\<lambda>w. if way_id w = wid then w\<lparr>way_nodes := nds\<rparr> else w) (osm_ways s)\<rparr>"

definition set_way_tags :: "int \<Rightarrow> tags \<Rightarrow> ('c, 'k) osm_data \<Rightarrow> ('c, 'k) osm_data" where
  "set_way_tags wid tgs s =
     s\<lparr>osm_ways := map (\<lambda>w. if way_id w = wid then w\<lparr>way_tags := tgs\<rparr> else w) (osm_ways s)\<rparr>"

text \<open>
  Modelled from the spec: the methods \<^verbatim>\<open>addparent\<close> and \<^verbatim>\<open>removeparent\<close> of the
  entity classes, which are not in \<^verbatim>\<open>osm_data.py\<close>. The parents of an entity are a
  set: \<^verbatim>\<open>addparent\<close> adds the container to it, \<^verbatim>\<open>removeparent\<close> takes it out.
\<close>

definition way_addparent :: "int \<Rightarrow> ref \<Rightarrow> ('c, 'k) osm_data \<Rightarrow> ('c, 'k) osm_data" where
  "way_addparent wid parent s =
     s\<lparr>osm_ways := map (\<lambda>w. if way_id w = wid
                              then w\<lparr>way_parents := insert parent (way_parents w)\<rparr> else w)
                       (osm_ways s)\<rparr>"

definition node_addparent :: "int \<Rightarrow> ref \<Rightarrow> ('c, 'k) osm_data \<Rightarrow> ('c, 'k) osm_data" where
  "node_addparent nid parent s =
     s\<lparr>osm_nodes := map (\<lambda>n. if point_id n = nid
                               then n\<lparr>point_parents := insert parent (point_parents n)\<rparr> else n)
                        (osm_nodes s)\<rparr>"

definition node_removeparent :: "int \<Rightarrow> ref \<Rightarrow> ('c, 'k) osm_data \<Rightarrow> ('c, 'k) osm_data" where
  "node_removeparent nid parent s =
     s\<lparr>osm_nodes := map (\<lambda>n. if point_id n = nid
                               then n\<lparr>point_parents := point_parents n - {parent}\<rparr> else n)
                        (osm_nodes s)\<rparr>"

text \<open>Assigning to the tags and appending to the members of a relation of the store.\<close>

definition set_relation_tags :: "int \<Rightarrow> tags \<Rightarrow> ('c, 'k) osm_data \<Rightarrow> ('c, 'k) osm_data" where
  "set_relation_tags rid tgs s =
     s\<lparr>osm_relations := map (\<lambda>r. if relation_id r = rid then r\<lparr>relation_tags := tgs\<rparr> else r)
                            (osm_relations s)\<rparr>"

definition relation_append_member ::
  "int \<Rightarrow> ref \<times> string \<Rightarrow> ('c, 'k) osm_data \<Rightarrow> ('c, 'k) osm_data" where
  "relation_append_member rid member s =
     s\<lparr>osm_relations := map (\<lambda>r. if relation_id r = rid
                                   then r\<lparr>relation_members := relation_members r @ [member]\<rparr>
                                   else r)
                            (osm_relations s)\<rparr>"

text \<open>
  \<^verbatim>\<open>range(0, stop, step)\<close> for a length \<open>stop\<close>: a step of zero raises
  \<^verbatim>\<open>ValueError\<close>, a negative step gives the empty range.
\<close>

definition range_step :: "nat \<Rightarrow> int \<Rightarrow> error + nat list" where
  "range_step stop step =
     (if step = 0 then Inl ValueError
      else if step < 0 then Inr []
      else Inr (map (\<lambda>k. k * nat step) [0..<(stop + nat step - 1) div nat step]))"

text \<open>
  \<^verbatim>\<open>[ OsmWay(way.tags) for i in range(len(new_nodes) - 1) ]\<close>: \<open>k\<close> new ways, each with
  an identity of its own.
\<close>

fun new_split_ways ::
  "tags \<Rightarrow> nat \<Rightarrow> ('c, 'k) osm_data \<Rightarrow> osm_way list \<times> ('c, 'k) osm_data" where
  "new_split_ways tgs 0 s = ([], s)"
| "new_split_ways tgs (Suc k) s =
     (case OsmWay tgs s of
        (w, s1) \<Rightarrow> (case new_split_ways tgs k s1 of (ws, s2) \<Rightarrow> (w # ws, s2)))"

text \<open>
  The body of the loop of \<^verbatim>\<open>__split_way\<close>:
  \<^verbatim>\<open>
  for new_way, nodes in zip(new_ways, new_nodes):
      new_way.nodes = nodes
      if new_way.id != way.id:
          self.__ways.append(new_way)
          for node in nodes:
              node.removeparent(way)
              node.addparent(new_way)
  \<close>
  A way of another identity than \<open>way\<close> is one of the new ways, which is not in the
  store yet: it enters the store with its nodes set.
\<close>

definition move_node :: "int \<Rightarrow> int \<Rightarrow> int \<Rightarrow> ('c, 'k) osm_data \<Rightarrow> ('c, 'k) osm_data" where
  "move_node wid new_wid node s =
     node_addparent node (WayRef new_wid) (node_removeparent node (WayRef wid) s)"

definition split_assign ::
  "osm_way \<Rightarrow> osm_way \<times> int list \<Rightarrow> ('c, 'k) osm_data \<Rightarrow> ('c, 'k) osm_data" where
  "split_assign way p s =
     (case p of (new_way, nds) \<Rightarrow>
        if way_id new_way \<noteq> way_id way
        then fold (move_node (way_id way) (way_id new_way)) nds
               (s\<lparr>osm_ways := osm_ways s @ [new_way\<lparr>way_nodes := nds\<rparr>]\<rparr>)
        else set_way_nodes (way_id new_way) nds s)"

text \<open>
  \<^verbatim>\<open>
  def __split_way(self, way):
      new_nodes = [ way.nodes[i:i + self.max_points_in_way] \
                             for i in range(0, len(way.nodes), self.max_points_in_way - 1) ]
      new_ways = [ way ] + [ OsmWay(way.tags) for i in range(len(new_nodes) - 1) ]
      for new_way, nodes in zip(new_ways, new_nodes):
          ...
      return new_ways
  \<close>
  The slice \<^verbatim>\<open>way.nodes[i:i + L]\<close> is only computed when the range is not empty, that is
  when the step \<open>L - 1\<close> is positive; it then takes \<open>L\<close> elements after dropping \<open>i\<close>.
  The result is the list of the identities of \<^verbatim>\<open>new_ways\<close>.
\<close>

definition split_chunks :: "int \<Rightarrow> int list \<Rightarrow> error + int list list" where
  "split_chunks L nds =
     (case range_step (length nds) (L - 1) of
        Inl e \<Rightarrow> Inl e
      | Inr starts \<Rightarrow> Inr (map (\<lambda>i. take (nat L) (drop i nds)) starts))"

definition split_way ::
  "('c, 'k) options \<Rightarrow> osm_way \<Rightarrow> ('c, 'k) osm_data \<Rightarrow> error + int list \<times> ('c, 'k) osm_data" where
  "split_way opts way s =
     (case split_chunks (max_points_in_way opts) (way_nodes way) of
        Inl e \<Rightarrow> Inl e
      | Inr new_nodes \<Rightarrow>
          (case new_split_ways (way_tags way) (length new_nodes - 1) s of
             (created, s1) \<Rightarrow>
               Inr (map way_id (way # created),
                    fold (split_assign way) (zip (way # created) new_nodes) s1)))"

text \<open>
  \<^verbatim>\<open>
  def __split_way_in_relation(self, rel, way_parts):
      way_role = rel.get_member_role(way_parts[0])
      for way in way_parts[1:]:
          way.addparent(rel)
          rel.members.append((way, way_role))
  \<close>
\<close>

definition add_way_part :: "int \<Rightarrow> string \<Rightarrow> int \<Rightarrow> ('c, 'k) osm_data \<Rightarrow> ('c, 'k) osm_data" where
  "add_way_part rid way_role wid s =
     relation_append_member rid (WayRef wid, way_role) (way_addparent wid (RelationRef rid) s)"

definition split_way_in_relation ::
  "osm_relation \<Rightarrow> int list \<Rightarrow> ('c, 'k) osm_data \<Rightarrow> error + ('c, 'k) osm_data" where
  "split_way_in_relation rel way_parts s =
     (case way_parts of
        [] \<Rightarrow> Inl IndexError
      | first # others \<Rightarrow>
          Inr (fold (add_way_part (relation_id rel) (get_member_role rel (WayRef first))) others s))"

text \<open>
  \<^verbatim>\<open>for rel in way.get_parents(): self.__split_way_in_relation(rel, way_parts)\<close>.
  The parents of a way are relations of the store (only the polygon and the collection
  parser add a parent to a way, and they add a relation). The order in which Python
  visits a set is not specified; the relations are visited in the order of the store,
  and each visit changes the visited relation and the new ways only.
\<close>

fun split_way_in_relations ::
  "osm_relation list \<Rightarrow> int list \<Rightarrow> ('c, 'k) osm_data \<Rightarrow> error + ('c, 'k) osm_data" where
  "split_way_in_relations [] way_parts s = Inr s"
| "split_way_in_relations (rel # rels) way_parts s =
     (case split_way_in_relation rel way_parts s of
        Inl e \<Rightarrow> Inl e
      | Inr s1 \<Rightarrow> split_way_in_relations rels way_parts s1)"

definition parent_relations :: "osm_way \<Rightarrow> ('c, 'k) osm_data \<Rightarrow> osm_relation list" where
  "parent_relations way s =
     filter (\<lambda>r. RelationRef (relation_id r) \<in> way_parents way) (osm_relations s)"

text \<open>
  The body of the loop of \<^verbatim>\<open>split_long_ways\<close> for the way at position \<open>i\<close> of
  \<^verbatim>\<open>__ways\<close>:
  \<^verbatim>\<open>
  if len(way.nodes) > self.max_points_in_way:
      way_parts = self.__split_way(way)
      for rel in way.get_parents():
          self.__split_way_in_relation(rel, way_parts)
  \<close>
\<close>

definition split_long_way ::
  "('c, 'k) options \<Rightarrow> nat \<Rightarrow> ('c, 'k) osm_data \<Rightarrow> error + ('c, 'k) osm_data" where
  "split_long_way opts i s =
     (if int (length (way_nodes (osm_ways s ! i))) > max_points_in_way opts
      then (case split_way opts (osm_ways s ! i) s of
              Inl e \<Rightarrow> Inl e
            | Inr (way_parts, s1) \<Rightarrow>
                split_way_in_relations (parent_relations (osm_ways s ! i) s1) way_parts s1)
      else Inr s)"

subsection \<open>The loop of split_long_ways\<close>

text \<open>
  \<^verbatim>\<open>
  def split_long_ways(self):
      if self.max_points_in_way < 2:
          # pointless :-)
          return
      for way in self.__ways:
          if len(way.nodes) > self.max_points_in_way:
              ...
  \<close>
  The loop runs over \<^verbatim>\<open>__ways\<close> while \<^verbatim>\<open>__split_way\<close> appends to it: Python's list
  iterator holds a position and stops when the position reaches the current length of
  the list. The loop is the recursion \<open>split_long_ways_from\<close> on that position. It
  terminates because the number of over-long ways from the position on decreases with
  every split, and otherwise the distance to the end of the list does: the lemmas below
  are those of the termination proof.
\<close>

definition shrunk :: "int \<Rightarrow> osm_way list \<Rightarrow> osm_way list \<Rightarrow> bool" where
  "shrunk L ws ws' \<longleftrightarrow>
     length ws \<le> length ws' \<and>
     (\<forall>j<length ws'. (j < length ws \<and> way_nodes (ws' ! j) = way_nodes (ws ! j))
                      \<or> int (length (way_nodes (ws' ! j))) \<le> L)"

lemma shrunk_refl: "shrunk L ws ws"
  by (simp add: shrunk_def)

lemma shrunk_trans: "shrunk L a b \<Longrightarrow> shrunk L b c \<Longrightarrow> shrunk L a c"
  unfolding shrunk_def by (metis le_trans)

lemma shrunk_map_same:
  "(\<And>w. way_nodes (f w) = way_nodes w) \<Longrightarrow> shrunk L ws (map f ws)"
  by (simp add: shrunk_def)

lemma shrunk_set_nodes:
  "int (length nds) \<le> L \<Longrightarrow>
   shrunk L ws (map (\<lambda>w. if way_id w = wid then w\<lparr>way_nodes := nds\<rparr> else w) ws)"
  by (simp add: shrunk_def)

lemma shrunk_append:
  "int (length (way_nodes w)) \<le> L \<Longrightarrow> shrunk L ws (ws @ [w])"
  by (auto simp: shrunk_def nth_append)

lemma osm_ways_move_node [simp]: "osm_ways (move_node a b n s) = osm_ways s"
  by (simp add: move_node_def node_addparent_def node_removeparent_def)

lemma osm_ways_fold_move_node [simp]: "osm_ways (fold (move_node a b) nds s) = osm_ways s"
  by (induction nds arbitrary: s) simp_all

lemma osm_ways_new_split_ways:
  "new_split_ways tgs k s = (created, s1) \<Longrightarrow> osm_ways s1 = osm_ways s"
  by (induction k arbitrary: s created) (auto simp: OsmWay_def split: prod.splits)

lemma osm_relations_new_split_ways:
  "new_split_ways tgs k s = (created, s1) \<Longrightarrow> osm_relations s1 = osm_relations s"
  by (induction k arbitrary: s created) (auto simp: OsmWay_def split: prod.splits)

lemma length_new_split_ways:
  "new_split_ways tgs k s = (created, s1) \<Longrightarrow> length created = k"
  by (induction k arbitrary: s created) (auto simp: OsmWay_def split: prod.splits)

lemma shrunk_split_assign:
  "int (length (snd p)) \<le> L \<Longrightarrow> shrunk L (osm_ways s) (osm_ways (split_assign way p s))"
  by (cases p) (auto simp: split_assign_def set_way_nodes_def intro: shrunk_set_nodes shrunk_append)

lemma shrunk_fold_split_assign:
  "\<forall>p\<in>set ps. int (length (snd p)) \<le> L \<Longrightarrow>
   shrunk L (osm_ways s) (osm_ways (fold (split_assign way) ps s))"
proof (induction ps arbitrary: s)
  case Nil
  then show ?case by (simp add: shrunk_refl)
next
  case (Cons p ps)
  have "shrunk L (osm_ways s) (osm_ways (split_assign way p s))"
    using Cons.prems by (intro shrunk_split_assign) simp
  moreover have "shrunk L (osm_ways (split_assign way p s))
                   (osm_ways (fold (split_assign way) ps (split_assign way p s)))"
    using Cons.prems by (intro Cons.IH) simp
  ultimately show ?case by (auto intro: shrunk_trans)
qed

lemma shrunk_add_way_part:
  "shrunk L (osm_ways s) (osm_ways (add_way_part rid role wid s))"
  by (simp add: add_way_part_def relation_append_member_def way_addparent_def shrunk_map_same)

lemma shrunk_fold_add_way_part:
  "shrunk L (osm_ways s) (osm_ways (fold (add_way_part rid role) ws s))"
proof (induction ws arbitrary: s)
  case Nil
  then show ?case by (simp add: shrunk_refl)
next
  case (Cons w ws)
  show ?case using shrunk_add_way_part[of L s rid role w] Cons.IH[of "add_way_part rid role w s"]
    by (auto intro: shrunk_trans)
qed

lemma shrunk_split_way_in_relations:
  "split_way_in_relations rels parts s = Inr s' \<Longrightarrow> shrunk L (osm_ways s) (osm_ways s')"
proof (induction rels arbitrary: s)
  case Nil
  then show ?case by (simp add: shrunk_refl)
next
  case (Cons rel rels)
  then obtain s1 where s1: "split_way_in_relation rel parts s = Inr s1"
    and r: "split_way_in_relations rels parts s1 = Inr s'"
    by (auto split: sum.splits)
  have "shrunk L (osm_ways s) (osm_ways s1)"
    using s1 shrunk_fold_add_way_part
    by (auto simp: split_way_in_relation_def split: list.splits)
  then show ?case using Cons.IH[OF r] by (auto intro: shrunk_trans)
qed

lemma split_way_in_relations_single:
  "split_way_in_relations rels [w] s = Inr s"
  by (induction rels) (simp_all add: split_way_in_relation_def)

lemma split_chunks_lengths:
  assumes "split_chunks L nds = Inr chunks" "c \<in> set chunks"
  shows "int (length c) \<le> L"
proof -
  have "0 < L - 1" using assms by (auto simp: split_chunks_def range_step_def split: if_splits)
  then show ?thesis using assms
    by (auto simp: split_chunks_def range_step_def split: if_splits)
qed

lemma split_chunks_cases:
  assumes "split_chunks L nds = Inr chunks"
  shows "(L < 1 \<and> chunks = []) \<or>
         (2 \<le> L \<and> (nds = [] \<and> chunks = [] \<or>
            nds \<noteq> [] \<and> (\<exists>rest. chunks = take (nat L) nds # rest)))"
proof -
  consider "L - 1 < 0" | "L - 1 = 0" | "0 < L - 1" by linarith
  then show ?thesis
  proof cases
    case 1
    then show ?thesis using assms by (auto simp: split_chunks_def range_step_def)
  next
    case 2
    then show ?thesis using assms by (auto simp: split_chunks_def range_step_def)
  next
    case 3
    show ?thesis
    proof (cases "nds = []")
      case True
      then show ?thesis using assms 3 by (auto simp: split_chunks_def range_step_def)
    next
      case False
      let ?k = "(length nds + nat (L - 1) - 1) div nat (L - 1)"
      have "nat (L - 1) \<le> length nds + nat (L - 1) - 1" using False 3
        by (cases nds) auto
      then have "0 < ?k" using 3 by (simp add: div_greater_zero_iff)
      then have "[0..<?k] = 0 # [1..<?k]" by (simp add: upt_rec)
      then show ?thesis using assms 3 False
        by (auto simp: split_chunks_def range_step_def)
    qed
  qed
qed

definition pending :: "('c, 'k) options \<Rightarrow> nat \<Rightarrow> ('c, 'k) osm_data \<Rightarrow> nat" where
  "pending opts i s =
     card {j. i \<le> j \<and> j < length (osm_ways s)
              \<and> max_points_in_way opts < int (length (way_nodes (osm_ways s ! j)))}"

lemma shrunk_length: "shrunk L ws ws' \<Longrightarrow> length ws \<le> length ws'"
  by (simp add: shrunk_def)

lemma shrunk_keep:
  assumes "shrunk L ws ws'" "j < length ws" "int (length (way_nodes (ws ! j))) \<le> L"
  shows "int (length (way_nodes (ws' ! j))) \<le> L"
proof -
  have "j < length ws'" using assms(1,2) by (simp add: shrunk_def)
  then have "way_nodes (ws' ! j) = way_nodes (ws ! j) \<or> int (length (way_nodes (ws' ! j))) \<le> L"
    using assms(1) by (simp add: shrunk_def) blast
  then show ?thesis using assms(3) by auto
qed

lemma shrunk_long:
  assumes "shrunk L ws ws'" "j < length ws'" "L < int (length (way_nodes (ws' ! j)))"
  shows "j < length ws \<and> L < int (length (way_nodes (ws ! j)))"
proof -
  have "(j < length ws \<and> way_nodes (ws' ! j) = way_nodes (ws ! j))
        \<or> int (length (way_nodes (ws' ! j))) \<le> L"
    using assms(1,2) by (simp add: shrunk_def)
  then show ?thesis using assms(3) by auto
qed

lemma split_way_shrunk:
  assumes "split_way opts way s = Inr (parts, s1)"
  shows "shrunk (max_points_in_way opts) (osm_ways s) (osm_ways s1)"
proof -
  obtain chunks where ch: "split_chunks (max_points_in_way opts) (way_nodes way) = Inr chunks"
    using assms by (auto simp: split_way_def split: sum.splits)
  obtain created s0 where ns: "new_split_ways (way_tags way) (length chunks - 1) s = (created, s0)"
    by force
  have s1: "s1 = fold (split_assign way) (zip (way # created) chunks) s0"
    using assms ch ns by (simp add: split_way_def)
  have "\<forall>p\<in>set (zip (way # created) chunks). int (length (snd p)) \<le> max_points_in_way opts"
    using split_chunks_lengths[OF ch] by (auto dest: set_zip_rightD)
  from shrunk_fold_split_assign[OF this, of s0 way]
  show ?thesis using s1 osm_ways_new_split_ways[OF ns] by simp
qed

lemma split_way_first:
  assumes "split_way opts (osm_ways s ! i) s = Inr (parts, s1)"
    and "i < length (osm_ways s)"
    and "max_points_in_way opts < int (length (way_nodes (osm_ways s ! i)))"
  shows "(s1 = s \<and> parts = [way_id (osm_ways s ! i)] \<and> max_points_in_way opts < 1)
         \<or> int (length (way_nodes (osm_ways s1 ! i))) \<le> max_points_in_way opts"
proof -
  let ?way = "osm_ways s ! i" and ?L = "max_points_in_way opts"
  obtain chunks where ch: "split_chunks ?L (way_nodes ?way) = Inr chunks"
    using assms by (auto simp: split_way_def split: sum.splits)
  obtain created s0 where ns: "new_split_ways (way_tags ?way) (length chunks - 1) s = (created, s0)"
    by force
  have s1: "s1 = fold (split_assign ?way) (zip (?way # created) chunks) s0"
    and parts: "parts = map way_id (?way # created)"
    using assms ch ns by (simp_all add: split_way_def)
  from split_chunks_cases[OF ch] assms(3)
  consider "chunks = []" "?L < 1" | rest where "2 \<le> ?L" "chunks = take (nat ?L) (way_nodes ?way) # rest"
    by auto
  then show ?thesis
  proof cases
    case 1
    then have "created = []" "s0 = s" using ns by auto
    then show ?thesis using s1 parts 1 by simp
  next
    case 2
    let ?sa = "set_way_nodes (way_id ?way) (take (nat ?L) (way_nodes ?way)) s0"
    have w0: "osm_ways s0 = osm_ways s" by (rule osm_ways_new_split_ways[OF ns])
    have s1': "s1 = fold (split_assign ?way) (zip created rest) ?sa"
      using s1 2 by (simp add: split_assign_def)
    have a: "int (length (way_nodes (osm_ways ?sa ! i))) \<le> ?L"
      using assms(2) w0 2(1) by (simp add: set_way_nodes_def)
    have "\<forall>p\<in>set (zip created rest). int (length (snd p)) \<le> ?L"
      using split_chunks_lengths[OF ch] 2 by (auto dest: set_zip_rightD)
    from shrunk_fold_split_assign[OF this, of ?sa ?way]
    have sh: "shrunk ?L (osm_ways ?sa) (osm_ways s1)" using s1' by simp
    have "i < length (osm_ways ?sa)" using assms(2) w0 by (simp add: set_way_nodes_def)
    then have "int (length (way_nodes (osm_ways s1 ! i))) \<le> ?L"
      using shrunk_keep[OF sh _ a] by simp
    then show ?thesis by simp
  qed
qed

lemma split_long_way_step:
  assumes "split_long_way opts i s = Inr s'" and "i < length (osm_ways s)"
  shows "(s' = s \<and> (max_points_in_way opts < 1
                    \<or> int (length (way_nodes (osm_ways s ! i))) \<le> max_points_in_way opts)) \<or>
         (max_points_in_way opts < int (length (way_nodes (osm_ways s ! i)))
          \<and> shrunk (max_points_in_way opts) (osm_ways s) (osm_ways s')
          \<and> int (length (way_nodes (osm_ways s' ! i))) \<le> max_points_in_way opts)"
proof (cases "max_points_in_way opts < int (length (way_nodes (osm_ways s ! i)))")
  case False
  then show ?thesis using assms by (simp add: split_long_way_def)
next
  case True
  let ?way = "osm_ways s ! i" and ?L = "max_points_in_way opts"
  obtain parts s1 where sw: "split_way opts ?way s = Inr (parts, s1)"
    and rl: "split_way_in_relations (parent_relations ?way s1) parts s1 = Inr s'"
    using assms True by (auto simp: split_long_way_def split: sum.splits)
  have sh1: "shrunk ?L (osm_ways s) (osm_ways s1)" by (rule split_way_shrunk[OF sw])
  have sh2: "shrunk ?L (osm_ways s1) (osm_ways s')" by (rule shrunk_split_way_in_relations[OF rl])
  from split_way_first[OF sw assms(2) True]
  show ?thesis
  proof
    assume "s1 = s \<and> parts = [way_id ?way] \<and> ?L < 1"
    then show ?thesis using rl by (simp add: split_way_in_relations_single)
  next
    assume a: "int (length (way_nodes (osm_ways s1 ! i))) \<le> ?L"
    have "i < length (osm_ways s1)" using shrunk_length[OF sh1] assms(2) by simp
    then have "int (length (way_nodes (osm_ways s' ! i))) \<le> ?L"
      using shrunk_keep[OF sh2 _ a] by simp
    then show ?thesis using True sh1 sh2 by (auto intro: shrunk_trans)
  qed
qed

lemma pending_Suc_le: "pending opts (Suc i) s \<le> pending opts i s"
  unfolding pending_def by (rule card_mono) auto

lemma pending_decreases:
  assumes "i < length (osm_ways s)"
    and "max_points_in_way opts < int (length (way_nodes (osm_ways s ! i)))"
    and "shrunk (max_points_in_way opts) (osm_ways s) (osm_ways s')"
    and "int (length (way_nodes (osm_ways s' ! i))) \<le> max_points_in_way opts"
  shows "pending opts (Suc i) s' < pending opts i s"
  unfolding pending_def
proof (rule psubset_card_mono)
  let ?A = "{j. Suc i \<le> j \<and> j < length (osm_ways s')
              \<and> max_points_in_way opts < int (length (way_nodes (osm_ways s' ! j)))}"
  let ?B = "{j. i \<le> j \<and> j < length (osm_ways s)
              \<and> max_points_in_way opts < int (length (way_nodes (osm_ways s ! j)))}"
  show "finite ?B" by simp
  have "?A \<subseteq> ?B"
  proof
    fix j assume "j \<in> ?A"
    then have j: "Suc i \<le> j" "j < length (osm_ways s')"
      "max_points_in_way opts < int (length (way_nodes (osm_ways s' ! j)))" by auto
    from shrunk_long[OF assms(3) j(2,3)] j(1) show "j \<in> ?B" by simp
  qed
  moreover have "i \<in> ?B" "i \<notin> ?A" using assms by auto
  ultimately show "?A \<subset> ?B" by blast
qed


function split_long_ways_from ::
  "('c, 'k) options \<Rightarrow> nat \<Rightarrow> ('c, 'k) osm_data \<Rightarrow> error + ('c, 'k) osm_data" where
  "split_long_ways_from opts i s =
     (if i < length (osm_ways s)
      then (case split_long_way opts i s of
              Inl e \<Rightarrow> Inl e
            | Inr s1 \<Rightarrow> split_long_ways_from opts (Suc i) s1)
      else Inr s)"
  by pat_completeness auto
termination
proof (relation "measures [\<lambda>(opts, i, s). pending opts i s,
                           \<lambda>(opts, i, s). length (osm_ways s) - i]")
  show "wf (measures [\<lambda>(opts :: ('c, 'k) options, i, s :: ('c, 'k) osm_data). pending opts i s,
                      \<lambda>(opts, i, s). length (osm_ways s) - i])"
    by simp
next
  fix opts :: "('c, 'k) options" and i and s s1 :: "('c, 'k) osm_data"
  assume i: "i < length (osm_ways s)" and st: "split_long_way opts i s = Inr s1"
  from split_long_way_step[OF st i]
  show "((opts, Suc i, s1), (opts, i, s))
          \<in> measures [\<lambda>(opts, i, s). pending opts i s, \<lambda>(opts, i, s). length (osm_ways s) - i]"
  proof
    assume "s1 = s \<and> (max_points_in_way opts < 1
                    \<or> int (length (way_nodes (osm_ways s ! i))) \<le> max_points_in_way opts)"
    then show ?thesis using i pending_Suc_le[of opts i s] by auto
  next
    assume "max_points_in_way opts < int (length (way_nodes (osm_ways s ! i)))
          \<and> shrunk (max_points_in_way opts) (osm_ways s) (osm_ways s1)
          \<and> int (length (way_nodes (osm_ways s1 ! i))) \<le> max_points_in_way opts"
    then show ?thesis using pending_decreases[OF i, of opts s1] by simp
  qed
qed

definition split_long_ways ::
  "('c, 'k) options \<Rightarrow> ('c, 'k) osm_data \<Rightarrow> error + ('c, 'k) osm_data" where
  "split_long_ways opts s =
     (if max_points_in_way opts < 2 then Inr s else split_long_ways_from opts 0 s)"

subsection \<open>Visiting given positions once\<close>

text \<open>
  The loop body applied to each position of a given list, once and in order. It is not a
  function of the source: the claim on termination compares the loop of
  \<^verbatim>\<open>split_long_ways\<close>, which runs over a list that grows, with the visit of the
  positions that the list had when the loop started.
\<close>

fun split_long_ways_over ::
  "('c, 'k) options \<Rightarrow> nat list \<Rightarrow> ('c, 'k) osm_data \<Rightarrow> error + ('c, 'k) osm_data" where
  "split_long_ways_over opts [] s = Inr s"
| "split_long_ways_over opts (i # rest) s =
     (case split_long_way opts i s of
        Inl e \<Rightarrow> Inl e
      | Inr s1 \<Rightarrow> split_long_ways_over opts rest s1)"


text \<open>
  From position \<open>n\<close> on, no way of the store is longer than the limit.
\<close>

definition tail_short :: "('c, 'k) options \<Rightarrow> nat \<Rightarrow> ('c, 'k) osm_data \<Rightarrow> bool" where
  "tail_short opts n s \<longleftrightarrow>
     n \<le> length (osm_ways s) \<and>
     (\<forall>j. n \<le> j \<and> j < length (osm_ways s)
          \<longrightarrow> int (length (way_nodes (osm_ways s ! j))) \<le> max_points_in_way opts)"


subsection \<open>A way of three nodes in a relation\<close>

text \<open>
  The store after a polygon whose single ring has the three points \<open>(0,0)\<close>,
  \<open>(10,0)\<close>, \<open>(20,0)\<close> was parsed with a limit of 2 points per way: three nodes, the
  way of the ring, and the relation that holds the way as its \<open>outer\<close> member. The
  second store is the first after \<open>split_long_ways\<close>.
\<close>

definition split_example_options :: "(int, unit) options" where
  "split_example_options = never_merge\<lparr>max_points_in_way := 2\<rparr>"

definition split_example :: "(int, unit) osm_data" where
  "split_example =
     \<lparr>osm_nodes =
        [\<lparr>point_id = 1, point_x = 0, point_y = 0, point_tags = Map.empty,
          point_parents = {WayRef 4}\<rparr>,
         \<lparr>point_id = 2, point_x = 10, point_y = 0, point_tags = Map.empty,
          point_parents = {WayRef 4}\<rparr>,
         \<lparr>point_id = 3, point_x = 20, point_y = 0, point_tags = Map.empty,
          point_parents = {WayRef 4}\<rparr>],
      unique_node_index = [Coordinates 0 0 \<mapsto> [0], Coordinates 1 0 \<mapsto> [1], Coordinates 2 0 \<mapsto> [2]],
      osm_ways =
        [\<lparr>way_id = 4, way_tags = Map.empty, way_nodes = [1, 2, 3],
          way_parents = {RelationRef 5}\<rparr>],
      osm_relations =
        [\<lparr>relation_id = 5, relation_tags = Map.empty,
          relation_members = [(WayRef 4, ''outer'')], relation_parents = {}\<rparr>],
      element_id_counter = 5, warnings = []\<rparr>"


definition split_example_result :: "(int, unit) osm_data" where
  "split_example_result =
     \<lparr>osm_nodes =
        [\<lparr>point_id = 1, point_x = 0, point_y = 0, point_tags = Map.empty,
          point_parents = {WayRef 4}\<rparr>,
         \<lparr>point_id = 2, point_x = 10, point_y = 0, point_tags = Map.empty,
          point_parents = {WayRef 6}\<rparr>,
         \<lparr>point_id = 3, point_x = 20, point_y = 0, point_tags = Map.empty,
          point_parents = {WayRef 6, WayRef 7}\<rparr>],
      unique_node_index = [Coordinates 0 0 \<mapsto> [0], Coordinates 1 0 \<mapsto> [1], Coordinates 2 0 \<mapsto> [2]],
      osm_ways =
        [\<lparr>way_id = 4, way_tags = Map.empty, way_nodes = [1, 2],
          way_parents = {RelationRef 5}\<rparr>,
         \<lparr>way_id = 6, way_tags = Map.empty, way_nodes = [2, 3],
          way_parents = {RelationRef 5}\<rparr>,
         \<lparr>way_id = 7, way_tags = Map.empty, way_nodes = [3],
          way_parents = {RelationRef 5}\<rparr>],
      osm_relations =
        [\<lparr>relation_id = 5, relation_tags = Map.empty,
          relation_members = [(WayRef 4, ''outer''), (WayRef 6, ''outer''), (WayRef 7, ''outer'')],
          relation_parents = {}\<rparr>],
      element_id_counter = 7, warnings = []\<rparr>"


definition split_disabled_options :: "(int, unit) options" where
  "split_disabled_options = never_merge\<lparr>max_points_in_way := 1\<rparr>"

section \<open>Parsing geometries\<close>

text \<open>
  The geometry objects come from OGR (\<^verbatim>\<open>osgeo.ogr\<close>), which is external. The model
  holds what the parser reads of a geometry: its type, its points (\<^verbatim>\<open>GetPoint(i)\<close> for
  \<^verbatim>\<open>i\<close> below \<^verbatim>\<open>GetPointCount()\<close>, the unused \<^verbatim>\<open>z\<close> left out) and its
  sub-geometries (\<^verbatim>\<open>GetGeometryRef(i)\<close> for \<^verbatim>\<open>i\<close> below \<^verbatim>\<open>GetGeometryCount()\<close>).
  \<open>wkbOther\<close> stands for every type that the parser does not name.
\<close>

datatype geometry_type =
    wkbPoint | wkbLineString | wkbPolygon | wkbMultiPoint | wkbMultiLineString
  | wkbMultiPolygon | wkbGeometryCollection | wkbLinearRing
  | wkbPoint25D | wkbLineString25D | wkbPolygon25D | wkbMultiPoint25D
  | wkbMultiLineString25D | wkbMultiPolygon25D | wkbGeometryCollection25D
  | wkbOther

datatype 'c ogrgeometry =
  OgrGeometry (GetGeometryType: geometry_type) (GetPoints: "('c \<times> 'c) list")
    (GetGeometries: "'c ogrgeometry list")

definition GetPointCount :: "'c ogrgeometry \<Rightarrow> nat" where
  "GetPointCount g = length (GetPoints g)"

definition GetGeometryCount :: "'c ogrgeometry \<Rightarrow> nat" where
  "GetGeometryCount g = length (GetGeometries g)"

text \<open>
  \<^verbatim>\<open>GetGeometryRef(i)\<close> returns \<^verbatim>\<open>None\<close> when there is no sub-geometry \<open>i\<close>. A
  parser that is handed \<^verbatim>\<open>None\<close> raises \<^verbatim>\<open>AttributeError\<close> at its first method call
  on it, before it changes the store.
\<close>

definition GetGeometryRef :: "'c ogrgeometry \<Rightarrow> nat \<Rightarrow> 'c ogrgeometry option" where
  "GetGeometryRef g i = (if i < length (GetGeometries g) then Some (GetGeometries g ! i) else None)"

text \<open>What a parser returns: a node, a way or a relation, with its current fields.\<close>

datatype 'c osm_geometry = Point "'c osm_point" | Way osm_way | Relation osm_relation

subsection \<open>Linestrings\<close>

text \<open>
  \<^verbatim>\<open>[ p for p in node.get_parents() if type(p) == OsmWay ]\<close>: the ways of the store that
  are parents of the node (every way that becomes a parent of a node is in
  \<^verbatim>\<open>__ways\<close>). Python does not specify the order of a set; the model lists them in the
  order of the store.
\<close>

definition parent_ways :: "'c osm_point \<Rightarrow> ('c, 'k) osm_data \<Rightarrow> osm_way list" where
  "parent_ways node s = filter (\<lambda>w. WayRef (way_id w) \<in> point_parents node) (osm_ways s)"

text \<open>
  The first loop of \<^verbatim>\<open>__parse_linestring\<close>, over the points that are left, with its
  variables \<^verbatim>\<open>previous_node_id\<close>, \<^verbatim>\<open>nodes\<close> and \<^verbatim>\<open>potential_duplicate_ways\<close>:
  \<^verbatim>\<open>
  for i in range(ogrgeometry.GetPointCount()):
      (x, y, z_unused) = ogrgeometry.GetPoint(i)
      node = self.__add_node(x, y, {}, True)
      if previous_node_id is None or previous_node_id != node.id:
          if previous_node_id is None:
              # first node: add all parent ways as potential duplicates
              potential_duplicate_ways = [ p for p in node.get_parents() if type(p) == OsmWay ]
          elif not any(node.get_parents()) and any(potential_duplicate_ways):
              # next nodes: if node doesn't belong to another way then this way is unique
              potential_duplicate_ways.clear()
          nodes.append(node)
          previous_node_id = node.id
  \<close>
  \<^verbatim>\<open>any\<close> of a collection of objects is true when the collection is not empty. No way
  changes during the loop, so the candidates are held with the fields they have.
\<close>

fun intern_points ::
  "('c, 'k) options \<Rightarrow> ('c \<times> 'c) list \<Rightarrow> int option \<Rightarrow> int list \<Rightarrow> osm_way list
     \<Rightarrow> ('c, 'k) osm_data \<Rightarrow> error + int list \<times> osm_way list \<times> ('c, 'k) osm_data" where
  "intern_points opts [] previous_node_id nds potential_duplicate_ways s =
     Inr (nds, potential_duplicate_ways, s)"
| "intern_points opts (p # rest) previous_node_id nds potential_duplicate_ways s =
     (case add_node opts (fst p) (snd p) Map.empty True s of
        Inl e \<Rightarrow> Inl e
      | Inr (node, s1) \<Rightarrow>
          if previous_node_id = None \<or> previous_node_id \<noteq> Some (point_id node)
          then intern_points opts rest (Some (point_id node)) (nds @ [point_id node])
                 (if previous_node_id = None then parent_ways node s1
                  else if point_parents node = {} \<and> potential_duplicate_ways \<noteq> [] then []
                  else potential_duplicate_ways)
                 s1
          else intern_points opts rest previous_node_id nds potential_duplicate_ways s1)"

text \<open>
  \<^verbatim>\<open>
  for duplicate_way in duplicate_ways:
      merged_tags = self.translation.merge_tags(duplicate_way[1], duplicate_way[0].tags, tags)
      if merged_tags is not None:
          duplicate_way[0].tags = merged_tags
          return duplicate_way[0]
  \<close>
\<close>

fun merge_duplicate_way ::
  "('c, 'k) options \<Rightarrow> tags \<Rightarrow> (osm_way \<times> string) list \<Rightarrow> ('c, 'k) osm_data
     \<Rightarrow> (osm_way \<times> ('c, 'k) osm_data) option" where
  "merge_duplicate_way opts tgs [] s = None"
| "merge_duplicate_way opts tgs (duplicate_way # rest) s =
     (case merge_tags opts (snd duplicate_way) (way_tags (fst duplicate_way)) tgs of
        Some merged_tags \<Rightarrow>
          Some ((fst duplicate_way)\<lparr>way_tags := merged_tags\<rparr>,
                set_way_tags (way_id (fst duplicate_way)) merged_tags s)
      | None \<Rightarrow> merge_duplicate_way opts tgs rest s)"

text \<open>
  \<^verbatim>\<open>
  way = self.__add_way(tags)
  way.nodes = nodes
  for node in nodes:
      node.addparent(way)
  return way
  \<close>
  where \<^verbatim>\<open>__add_way\<close> creates the way and appends it to \<^verbatim>\<open>__ways\<close>.
\<close>

definition add_way :: "tags \<Rightarrow> ('c, 'k) osm_data \<Rightarrow> osm_way \<times> ('c, 'k) osm_data" where
  "add_way tgs s =
     (case OsmWay tgs s of (way, s1) \<Rightarrow> (way, s1\<lparr>osm_ways := osm_ways s1 @ [way]\<rparr>))"

definition new_way :: "tags \<Rightarrow> int list \<Rightarrow> ('c, 'k) osm_data \<Rightarrow> osm_way \<times> ('c, 'k) osm_data" where
  "new_way tgs nds s =
     (case add_way tgs s of
        (way, s1) \<Rightarrow>
          (way\<lparr>way_nodes := nds\<rparr>,
           fold (\<lambda>node. node_addparent node (WayRef (way_id way))) nds
             (set_way_nodes (way_id way) nds s1)))"

fun parse_linestring ::
  "('c, 'k) options \<Rightarrow> 'c ogrgeometry option \<Rightarrow> tags \<Rightarrow> ('c, 'k) osm_data
     \<Rightarrow> error + osm_way \<times> ('c, 'k) osm_data" where
  "parse_linestring opts None tgs s = Inl AttributeError"
| "parse_linestring opts (Some ogrgeometry) tgs s =
     (case intern_points opts (GetPoints ogrgeometry) None [] [] s of
        Inl e \<Rightarrow> Inl e
      | Inr (nds, potential_duplicate_ways, s1) \<Rightarrow>
          (case merge_duplicate_way opts tgs (verify_duplicate_ways potential_duplicate_ways nds) s1 of
             Some found \<Rightarrow> Inr found
           | None \<Rightarrow> Inr (new_way tgs nds s1)))"

subsection \<open>Polygons\<close>

definition warning :: "string \<Rightarrow> ('c, 'k) osm_data \<Rightarrow> ('c, 'k) osm_data" where
  "warning msg s = s\<lparr>warnings := warnings s @ [msg]\<rparr>"

definition is_linestring_type :: "geometry_type \<Rightarrow> bool" where
  "is_linestring_type t \<longleftrightarrow> t = wkbLineString \<or> t = wkbLinearRing \<or> t = wkbLineString25D"

text \<open>
  \<^verbatim>\<open>[ p for p in exterior.get_parents()
       if type(p) == OsmRelation and p.get_member_role(exterior) == "outer" ]\<close>
\<close>

definition outer_parent_relations :: "osm_way \<Rightarrow> ('c, 'k) osm_data \<Rightarrow> osm_relation list" where
  "outer_parent_relations exterior s =
     filter (\<lambda>r. RelationRef (relation_id r) \<in> way_parents exterior
                  \<and> get_member_role r (WayRef (way_id exterior)) = ''outer'')
       (osm_relations s)"

text \<open>
  \<^verbatim>\<open>
  for i in range(1, ogrgeometry.GetGeometryCount()):
      interior = self.__parse_linestring(ogrgeometry.GetGeometryRef(i), {})
      members.append((interior, "inner"))
      if not any(interior.get_parents()) and any(potential_duplicate_relations):
          potential_duplicate_relations.clear()
  \<close>
  over the rings that are left.
\<close>

fun parse_interiors ::
  "('c, 'k) options \<Rightarrow> 'c ogrgeometry list \<Rightarrow> (ref \<times> string) list \<Rightarrow> osm_relation list
     \<Rightarrow> ('c, 'k) osm_data
     \<Rightarrow> error + (ref \<times> string) list \<times> osm_relation list \<times> ('c, 'k) osm_data" where
  "parse_interiors opts [] members potential_duplicate_relations s =
     Inr (members, potential_duplicate_relations, s)"
| "parse_interiors opts (ring # rest) members potential_duplicate_relations s =
     (case parse_linestring opts (Some ring) Map.empty s of
        Inl e \<Rightarrow> Inl e
      | Inr (interior, s1) \<Rightarrow>
          parse_interiors opts rest (members @ [(WayRef (way_id interior), ''inner'')])
            (if way_parents interior = {} \<and> potential_duplicate_relations \<noteq> [] then []
             else potential_duplicate_relations)
            s1)"

fun merge_duplicate_relation ::
  "('c, 'k) options \<Rightarrow> tags \<Rightarrow> osm_relation list \<Rightarrow> ('c, 'k) osm_data
     \<Rightarrow> (osm_relation \<times> ('c, 'k) osm_data) option" where
  "merge_duplicate_relation opts tgs [] s = None"
| "merge_duplicate_relation opts tgs (duplicate_relation # rest) s =
     (case merge_tags opts ''relation'' (relation_tags duplicate_relation) tgs of
        Some merged_tags \<Rightarrow>
          Some (duplicate_relation\<lparr>relation_tags := merged_tags\<rparr>,
                set_relation_tags (relation_id duplicate_relation) merged_tags s)
      | None \<Rightarrow> merge_duplicate_relation opts tgs rest s)"

definition add_relation :: "tags \<Rightarrow> ('c, 'k) osm_data \<Rightarrow> osm_relation \<times> ('c, 'k) osm_data" where
  "add_relation tgs s =
     (case OsmRelation tgs s of
        (relation, s1) \<Rightarrow> (relation, s1\<lparr>osm_relations := osm_relations s1 @ [relation]\<rparr>))"

text \<open>Modelled from the spec: \<^verbatim>\<open>addparent\<close> on a relation.\<close>

definition relation_addparent :: "int \<Rightarrow> ref \<Rightarrow> ('c, 'k) osm_data \<Rightarrow> ('c, 'k) osm_data" where
  "relation_addparent i parent s =
     s\<lparr>osm_relations := map (\<lambda>r. if relation_id r = i
                                   then r\<lparr>relation_parents := insert parent (relation_parents r)\<rparr>
                                   else r) (osm_relations s)\<rparr>"

text \<open>\<^verbatim>\<open>m[0].addparent(relation)\<close> for a member \<open>m\<close> of any kind.\<close>

definition member_addparent :: "int \<Rightarrow> ref \<times> string \<Rightarrow> ('c, 'k) osm_data \<Rightarrow> ('c, 'k) osm_data" where
  "member_addparent rid m s =
     (case fst m of
        WayRef wid \<Rightarrow> way_addparent wid (RelationRef rid) s
      | PointRef nid \<Rightarrow> node_addparent nid (RelationRef rid) s
      | RelationRef i \<Rightarrow> relation_addparent i (RelationRef rid) s)"

definition set_relation_members ::
  "int \<Rightarrow> (ref \<times> string) list \<Rightarrow> ('c, 'k) osm_data \<Rightarrow> ('c, 'k) osm_data" where
  "set_relation_members rid members s =
     s\<lparr>osm_relations := map (\<lambda>r. if relation_id r = rid then r\<lparr>relation_members := members\<rparr>
                                   else r) (osm_relations s)\<rparr>"

text \<open>
  \<^verbatim>\<open>
  relation = self.__add_relation(tags)
  for m in members:
      m[0].addparent(relation)
  relation.members = members
  return relation
  \<close>
\<close>

definition new_relation ::
  "tags \<Rightarrow> (ref \<times> string) list \<Rightarrow> ('c, 'k) osm_data \<Rightarrow> osm_relation \<times> ('c, 'k) osm_data" where
  "new_relation tgs members s =
     (case add_relation tgs s of
        (relation, s1) \<Rightarrow>
          (relation\<lparr>relation_members := members\<rparr>,
           set_relation_members (relation_id relation) members
             (fold (member_addparent (relation_id relation)) members s1)))"

text \<open>
  \<^verbatim>\<open>
  def __parse_polygon(self, ogrgeometry, tags):
      if ogrgeometry.GetGeometryCount() == 0:
          logging.warning("Polygon with no rings?")
          return None
      elif ogrgeometry.GetGeometryCount() == 1 and \
           ogrgeometry.GetGeometryRef(0).GetPointCount() <= self.max_points_in_way:
          # only 1 linestring which is not too long: no relation required
          result = self.__parse_linestring(ogrgeometry.GetGeometryRef(0), tags)
          return result
      else:
          members = []
          potential_duplicate_relations = []
          # exterior ring
          exterior_geom_type = ogrgeometry.GetGeometryRef(0).GetGeometryType()
          if exterior_geom_type in [ ogr.wkbLineString, ogr.wkbLinearRing, ogr.wkbLineString25D ]:
              exterior = self.__parse_linestring(ogrgeometry.GetGeometryRef(0), {})
              members.append((exterior, "outer"))
              potential_duplicate_relations = ...
          else:
              logging.warning("Polygon with no exterior ring?")
              return None
          # interior rings
          ...
          duplicate_relations = \
              self.__verify_duplicate_relations(potential_duplicate_relations, members)
          for duplicate_relation in duplicate_relations:
              ...
          relation = self.__add_relation(tags)
          ...
  \<close>
  The result is the entity returned, or \<open>None\<close>. Where the polygon has a ring,
  \<^verbatim>\<open>GetGeometryRef(0)\<close> is its first ring.
\<close>

definition parse_polygon_relation ::
  "('c, 'k) options \<Rightarrow> 'c ogrgeometry \<Rightarrow> tags \<Rightarrow> ('c, 'k) osm_data
     \<Rightarrow> error + 'c osm_geometry option \<times> ('c, 'k) osm_data" where
  "parse_polygon_relation opts ogrgeometry tgs s =
     (case parse_linestring opts (GetGeometryRef ogrgeometry 0) Map.empty s of
        Inl e \<Rightarrow> Inl e
      | Inr (exterior, s1) \<Rightarrow>
          (case parse_interiors opts (drop 1 (GetGeometries ogrgeometry))
                  [(WayRef (way_id exterior), ''outer'')] (outer_parent_relations exterior s1) s1 of
             Inl e \<Rightarrow> Inl e
           | Inr (members, potential_duplicate_relations, s2) \<Rightarrow>
               (case merge_duplicate_relation opts tgs
                       (verify_duplicate_relations potential_duplicate_relations members) s2 of
                  Some (relation, s3) \<Rightarrow> Inr (Some (Relation relation), s3)
                | None \<Rightarrow>
                    (case new_relation tgs members s2 of
                       (relation, s3) \<Rightarrow> Inr (Some (Relation relation), s3)))))"

fun parse_polygon ::
  "('c, 'k) options \<Rightarrow> 'c ogrgeometry option \<Rightarrow> tags \<Rightarrow> ('c, 'k) osm_data
     \<Rightarrow> error + 'c osm_geometry option \<times> ('c, 'k) osm_data" where
  "parse_polygon opts None tgs s = Inl AttributeError"
| "parse_polygon opts (Some ogrgeometry) tgs s =
     (if GetGeometryCount ogrgeometry = 0
      then Inr (None, warning ''Polygon with no rings?'' s)
      else if GetGeometryCount ogrgeometry = 1
              \<and> int (GetPointCount (GetGeometries ogrgeometry ! 0)) \<le> max_points_in_way opts
      then (case parse_linestring opts (GetGeometryRef ogrgeometry 0) tgs s of
              Inl e \<Rightarrow> Inl e
            | Inr (result, s1) \<Rightarrow> Inr (Some (Way result), s1))
      else if is_linestring_type (GetGeometryType (GetGeometries ogrgeometry ! 0))
      then parse_polygon_relation opts ogrgeometry tgs s
      else Inr (None, warning ''Polygon with no exterior ring?'' s))"

subsection \<open>Collections\<close>

text \<open>
  The body of the loops over the parts of a multipolygon:
  \<^verbatim>\<open>
  exterior.addparent(relation)
  relation.members.append((exterior, "outer"))
  \<close>
  The relation is held with its current fields, next to the store it is part of.
\<close>

definition add_relation_member ::
  "osm_relation \<Rightarrow> osm_way \<Rightarrow> string \<Rightarrow> ('c, 'k) osm_data
     \<Rightarrow> osm_relation \<times> ('c, 'k) osm_data" where
  "add_relation_member relation way role s =
     (relation\<lparr>relation_members := relation_members relation @ [(WayRef (way_id way), role)]\<rparr>,
      relation_append_member (relation_id relation) (WayRef (way_id way), role)
        (way_addparent (way_id way) (RelationRef (relation_id relation)) s))"

text \<open>
  \<^verbatim>\<open>
  for i in range(1, ogrgeometry.GetGeometryRef(polygon).GetGeometryCount()):
      int_geom = ogrgeometry.GetGeometryRef(polygon).GetGeometryRef(i)
      interior = self.__parse_linestring(int_geom, {})
      interior.addparent(relation)
      relation.members.append((interior, "inner"))
  \<close>
  over the rings that are left.
\<close>

fun parse_inner_rings ::
  "('c, 'k) options \<Rightarrow> osm_relation \<Rightarrow> 'c ogrgeometry list \<Rightarrow> ('c, 'k) osm_data
     \<Rightarrow> error + osm_relation \<times> ('c, 'k) osm_data" where
  "parse_inner_rings opts relation [] s = Inr (relation, s)"
| "parse_inner_rings opts relation (int_geom # rest) s =
     (case parse_linestring opts (Some int_geom) Map.empty s of
        Inl e \<Rightarrow> Inl e
      | Inr (interior, s1) \<Rightarrow>
          (case add_relation_member relation interior ''inner'' s1 of
             (relation1, s2) \<Rightarrow> parse_inner_rings opts relation1 rest s2))"

text \<open>
  \<^verbatim>\<open>
  for polygon in range(ogrgeometry.GetGeometryCount()):
      ext_geom = ogrgeometry.GetGeometryRef(polygon).GetGeometryRef(0)
      exterior = self.__parse_linestring(ext_geom, {})
      exterior.addparent(relation)
      relation.members.append((exterior, "outer"))
      for i in range(1, ogrgeometry.GetGeometryRef(polygon).GetGeometryCount()):
          ...
  \<close>
  over the parts that are left.
\<close>

fun parse_polygon_parts ::
  "('c, 'k) options \<Rightarrow> osm_relation \<Rightarrow> 'c ogrgeometry list \<Rightarrow> ('c, 'k) osm_data
     \<Rightarrow> error + osm_relation \<times> ('c, 'k) osm_data" where
  "parse_polygon_parts opts relation [] s = Inr (relation, s)"
| "parse_polygon_parts opts relation (polygon # rest) s =
     (case parse_linestring opts (GetGeometryRef polygon 0) Map.empty s of
        Inl e \<Rightarrow> Inl e
      | Inr (exterior, s1) \<Rightarrow>
          (case add_relation_member relation exterior ''outer'' s1 of
             (relation1, s2) \<Rightarrow>
               (case parse_inner_rings opts relation1 (drop 1 (GetGeometries polygon)) s2 of
                  Inl e \<Rightarrow> Inl e
                | Inr (relation2, s3) \<Rightarrow> parse_polygon_parts opts relation2 rest s3)))"

text \<open>
  \<^verbatim>\<open>
  for linestring in range(ogrgeometry.GetGeometryCount()):
      geometries.append(self.__parse_linestring(ogrgeometry.GetGeometryRef(linestring), tags))
  \<close>
\<close>

fun parse_linestrings ::
  "('c, 'k) options \<Rightarrow> 'c ogrgeometry list \<Rightarrow> tags \<Rightarrow> ('c, 'k) osm_data
     \<Rightarrow> error + 'c osm_geometry option list \<times> ('c, 'k) osm_data" where
  "parse_linestrings opts [] tgs s = Inr ([], s)"
| "parse_linestrings opts (linestring # rest) tgs s =
     (case parse_linestring opts (Some linestring) tgs s of
        Inl e \<Rightarrow> Inl e
      | Inr (way, s1) \<Rightarrow>
          (case parse_linestrings opts rest tgs s1 of
             Inl e \<Rightarrow> Inl e
           | Inr (geometries, s2) \<Rightarrow> Inr (Some (Way way) # geometries, s2)))"

text \<open>
  \<^verbatim>\<open>
  def __parse_collection(self, ogrgeometry, tags):
      geometry_type = ogrgeometry.GetGeometryType()
      if geometry_type in [ ogr.wkbMultiPolygon, ogr.wkbMultiPolygon25D ]:
          if ogrgeometry.GetGeometryCount() > 1:
              relation = self.__add_relation(tags)
              for polygon in range(ogrgeometry.GetGeometryCount()):
                  ...
              return [ relation ]
          else:
              return [ self.__parse_polygon(ogrgeometry.GetGeometryRef(0), tags) ]
      elif geometry_type in [ ogr.wkbMultiLineString, ogr.wkbMultiLineString25D ]:
          ...
          return geometries
      else:
          relation = self.__add_relation(tags)
          for i in range(ogrgeometry.GetGeometryCount()):
              member = self.__parse_geometry(ogrgeometry.GetGeometryRef(i), {})
              member.addparent(relation)
              relation.members.append((member, "member"))
          return [ relation ]
  \<close>
  \<^verbatim>\<open>__parse_geometry\<close>, which calls \<^verbatim>\<open>__parse_collection\<close> in turn, is the parameter
  \<open>parse_geometry\<close>. It returns a list, and a list has no method \<^verbatim>\<open>addparent\<close>: in
  the last branch the first turn of the loop raises \<^verbatim>\<open>AttributeError\<close> once
  \<^verbatim>\<open>__parse_geometry\<close> has returned.
\<close>

definition parse_collection ::
  "('c ogrgeometry option \<Rightarrow> tags \<Rightarrow> ('c, 'k) osm_data
      \<Rightarrow> error + 'c osm_geometry option list \<times> ('c, 'k) osm_data)
   \<Rightarrow> ('c, 'k) options \<Rightarrow> 'c ogrgeometry \<Rightarrow> tags \<Rightarrow> ('c, 'k) osm_data
   \<Rightarrow> error + 'c osm_geometry option list \<times> ('c, 'k) osm_data" where
  "parse_collection parse_geometry opts ogrgeometry tgs s =
     (if GetGeometryType ogrgeometry = wkbMultiPolygon
         \<or> GetGeometryType ogrgeometry = wkbMultiPolygon25D
      then (if GetGeometryCount ogrgeometry > 1
            then (case add_relation tgs s of
                    (relation, s1) \<Rightarrow>
                      (case parse_polygon_parts opts relation (GetGeometries ogrgeometry) s1 of
                         Inl e \<Rightarrow> Inl e
                       | Inr (relation1, s2) \<Rightarrow> Inr ([Some (Relation relation1)], s2)))
            else (case parse_polygon opts (GetGeometryRef ogrgeometry 0) tgs s of
                    Inl e \<Rightarrow> Inl e
                  | Inr (result, s1) \<Rightarrow> Inr ([result], s1)))
      else if GetGeometryType ogrgeometry = wkbMultiLineString
              \<or> GetGeometryType ogrgeometry = wkbMultiLineString25D
      then parse_linestrings opts (GetGeometries ogrgeometry) tgs s
      else (case add_relation tgs s of
              (relation, s1) \<Rightarrow>
                if GetGeometryCount ogrgeometry = 0 then Inr ([Some (Relation relation)], s1)
                else (case parse_geometry (GetGeometryRef ogrgeometry 0) Map.empty s1 of
                        Inl e \<Rightarrow> Inl e
                      | Inr member \<Rightarrow> Inl AttributeError)))"

subsection \<open>Some polygons\<close>

text \<open>
  A polygon whose single ring is a point geometry, a polygon with no ring, and a polygon
  of two rings whose first ring is a point geometry.
\<close>

definition point_ring_polygon :: "int ogrgeometry" where
  "point_ring_polygon = OgrGeometry wkbPolygon [] [OgrGeometry wkbPoint [(11, 25)] []]"




subsection \<open>The rings of a multipolygon, as the members of its relation\<close>

text \<open>
  These are not functions of the source; the statements on multipolygons are made with
  them. \<open>ring_roles\<close>: the roles under which the rings of one polygon part are to be
  listed in the relation of a multipolygon, \<open>outer\<close> for the first ring and
  \<open>inner\<close> for each of the others. \<open>rings_with_roles\<close>: the rings of a part, each
  with its role. \<open>link_rings\<close>: what is to happen to a list of rings with roles, one
  after the other: the ring is parsed as a linestring, and the way that results
  becomes a member of the relation with the role of the ring.
\<close>

definition ring_roles :: "'c ogrgeometry \<Rightarrow> string list" where
  "ring_roles polygon = ''outer'' # replicate (length (GetGeometries polygon) - 1) ''inner''"

definition rings_with_roles :: "'c ogrgeometry \<Rightarrow> ('c ogrgeometry \<times> string) list" where
  "rings_with_roles polygon = zip (GetGeometries polygon) (ring_roles polygon)"

fun link_rings ::
  "('c, 'k) options \<Rightarrow> osm_relation \<Rightarrow> ('c ogrgeometry \<times> string) list \<Rightarrow> ('c, 'k) osm_data
     \<Rightarrow> error + osm_relation \<times> ('c, 'k) osm_data" where
  "link_rings opts relation [] s = Inr (relation, s)"
| "link_rings opts relation (ring # rest) s =
     (case parse_linestring opts (Some (fst ring)) Map.empty s of
        Inl e \<Rightarrow> Inl e
      | Inr (way, s1) \<Rightarrow>
          (case add_relation_member relation way (snd ring) s1 of
             (relation1, s2) \<Rightarrow> link_rings opts relation1 rest s2))"

text \<open>The quantizer takes both coordinates of every point of the ring.\<close>

definition points_quantize :: "('c, 'k) options \<Rightarrow> 'c ogrgeometry \<Rightarrow> bool" where
  "points_quantize opts ring \<longleftrightarrow>
     list_all (\<lambda>p. \<not> isl (round_number opts (fst p)) \<and> \<not> isl (round_number opts (snd p)))
       (GetPoints ring)"

text \<open>
  Two relations between stores, for the proofs about the loops of the multipolygon
  branch. \<open>ways_extend\<close>: every way is still in the store, under its identity, with
  at least the parents it had. \<open>building\<close>: the relation under construction is the
  last relation of the store, no other relation has its identity, the index is well
  formed, and each of its members is a way of the store that has the relation among its
  parents.
\<close>

definition ways_extend :: "osm_way list \<Rightarrow> osm_way list \<Rightarrow> bool" where
  "ways_extend ws ws' \<longleftrightarrow>
     (\<forall>w\<in>set ws. \<exists>w'\<in>set ws'. way_id w' = way_id w \<and> way_parents w \<subseteq> way_parents w')"


definition building :: "osm_relation list \<Rightarrow> osm_relation \<Rightarrow> ('c, 'k) osm_data \<Rightarrow> bool" where
  "building others relation s \<longleftrightarrow>
     index_in_range s
     \<and> osm_relations s = others @ [relation]
     \<and> (\<forall>r\<in>set others. relation_id r \<noteq> relation_id relation)
     \<and> (\<forall>m\<in>set (relation_members relation).
           \<exists>w\<in>set (osm_ways s). fst m = WayRef (way_id w)
              \<and> RelationRef (relation_id relation) \<in> way_parents w)"


subsection \<open>Some multipolygons\<close>

text \<open>
  A multipolygon of two parts (a square with a hole, and a triangle), and one whose
  first part is a polygon with no ring
  (\<^verbatim>\<open>MULTIPOLYGON (EMPTY, ((200 0, 300 0, 300 100, 200 0)))\<close>). The parser of other
  geometries is not needed for them.
\<close>

definition no_parse_geometry ::
  "int ogrgeometry option \<Rightarrow> tags \<Rightarrow> (int, unit) osm_data
     \<Rightarrow> error + int osm_geometry option list \<times> (int, unit) osm_data" where
  "no_parse_geometry g tgs s = Inr ([], s)"

definition square_ring :: "int ogrgeometry" where
  "square_ring =
     OgrGeometry wkbLinearRing [(0, 0), (100, 0), (100, 100), (0, 100), (0, 0)] []"

definition hole_ring :: "int ogrgeometry" where
  "hole_ring =
     OgrGeometry wkbLinearRing [(20, 20), (40, 20), (40, 40), (20, 20)] []"

definition island_ring :: "int ogrgeometry" where
  "island_ring =
     OgrGeometry wkbLinearRing [(200, 0), (300, 0), (300, 100), (200, 0)] []"

definition two_part_multipolygon :: "int ogrgeometry" where
  "two_part_multipolygon =
     OgrGeometry wkbMultiPolygon []
       [OgrGeometry wkbPolygon [] [square_ring, hole_ring],
        OgrGeometry wkbPolygon [] [island_ring]]"

definition empty_part_multipolygon :: "int ogrgeometry" where
  "empty_part_multipolygon =
     OgrGeometry wkbMultiPolygon []
       [OgrGeometry wkbPolygon [] [], OgrGeometry wkbPolygon [] [island_ring]]"


section \<open>Properties of the ring canonicalization\<close>

lemma lowest_index_fold_inv:
  assumes "k \<le> length nodes" "1 \<le> k"
  shows "case fold (lowest_index_step nodes) [1..<k] (0, nodes ! 0) of
           (l, v) \<Rightarrow> l < k \<and> v = nodes ! l \<and> (\<forall>i<k. v \<le> nodes ! i) \<and> (\<forall>i<l. v < nodes ! i)"
  using assms
proof (induction k)
  case 0
  then show ?case by simp
next
  case (Suc k)
  show ?case
  proof (cases "k = 0")
    case True
    then show ?thesis by simp
  next
    case False
    then have k: "1 \<le> k" "k \<le> length nodes" using Suc.prems by auto
    obtain l v where lv: "fold (lowest_index_step nodes) [1..<k] (0, nodes ! 0) = (l, v)"
      by (cases "fold (lowest_index_step nodes) [1..<k] (0, nodes ! 0)")
    from Suc.IH[OF k(2) k(1)] lv
    have inv: "l < k" "v = nodes ! l" "\<forall>i<k. v \<le> nodes ! i" "\<forall>i<l. v < nodes ! i" by auto
    have "[1..<Suc k] = [1..<k] @ [k]" using k by simp
    then have st: "fold (lowest_index_step nodes) [1..<Suc k] (0, nodes ! 0)
               = (if nodes ! k < v then (k, nodes ! k) else (l, v))"
      using lv by (simp add: lowest_index_step_def)
    show ?thesis
    proof (cases "nodes ! k < v")
      case True
      then show ?thesis unfolding st using inv by (auto simp: less_Suc_eq)
    next
      case False
      then show ?thesis unfolding st using inv by (auto simp: less_Suc_eq)
    qed
  qed
qed

lemma lowest_index_props:
  assumes "nodes \<noteq> []"
  shows "lowest_index nodes < length nodes"
    and "\<forall>i<length nodes. nodes ! lowest_index nodes \<le> nodes ! i"
    and "\<forall>i<lowest_index nodes. nodes ! lowest_index nodes < nodes ! i"
proof -
  have "1 \<le> length nodes" using assms by (cases nodes) auto
  from lowest_index_fold_inv[OF le_refl this]
  show "lowest_index nodes < length nodes"
    and "\<forall>i<length nodes. nodes ! lowest_index nodes \<le> nodes ! i"
    and "\<forall>i<lowest_index nodes. nodes ! lowest_index nodes < nodes ! i"
    by (auto simp: lowest_index_def split: prod.splits)
qed

lemma lowest_index_Min:
  assumes "nodes \<noteq> []"
  shows "nodes ! lowest_index nodes = Min (set nodes)"
proof -
  have a: "nodes ! lowest_index nodes \<in> set nodes"
    using lowest_index_props(1)[OF assms] by simp
  have b: "\<forall>x\<in>set nodes. nodes ! lowest_index nodes \<le> x"
    using lowest_index_props(2)[OF assms] by (auto simp: in_set_conv_nth)
  show ?thesis using a b by (intro Min_eqI[symmetric]) auto
qed

lemma lowest_index_closed:
  assumes "is_closed nodes"
  shows "lowest_index nodes < length nodes - 1"
proof (rule ccontr)
  assume neg: "\<not> lowest_index nodes < length nodes - 1"
  have ne: "nodes \<noteq> []" and len: "length nodes > 2" and cl: "nodes ! 0 = nodes ! (length nodes - 1)"
    using assms by (auto simp: is_closed_def)
  have "lowest_index nodes = length nodes - 1"
    using neg lowest_index_props(1)[OF ne] by linarith
  moreover have "0 < lowest_index nodes" using calculation len by simp
  ultimately show False using lowest_index_props(3)[OF ne] cl by force
qed

lemma get_ordered_nodes_closed:
  assumes "is_closed nodes"
  shows "get_ordered_nodes nodes =
           rotate (lowest_index nodes) (butlast nodes) @ [nodes ! lowest_index nodes]"
proof -
  let ?l = "lowest_index nodes" and ?xs = "butlast nodes"
  have l: "?l < length ?xs" using lowest_index_closed[OF assms] by simp
  have "take (?l + 1) nodes = take (?l + 1) ?xs"
    using l by (simp add: take_butlast)
  also have "\<dots> = take ?l ?xs @ [?xs ! ?l]"
    using l by (simp add: take_Suc_conv_app_nth)
  also have "?xs ! ?l = nodes ! ?l" using l by (simp add: nth_butlast)
  finally have t: "take (?l + 1) nodes = take ?l ?xs @ [nodes ! ?l]" .
  have "rotate ?l ?xs = drop ?l ?xs @ take ?l ?xs"
    using l by (simp add: rotate_drop_take)
  then show ?thesis using assms t by (simp add: get_ordered_nodes_def)
qed

lemma closed_ring_decomp:
  assumes "is_closed nodes"
  shows "nodes = butlast nodes @ [hd (butlast nodes)]" and "length (butlast nodes) \<ge> 2"
    and "butlast nodes \<noteq> []"
proof -
  have len: "length nodes > 2" and cl: "nodes ! 0 = nodes ! (length nodes - 1)"
    using assms by (auto simp: is_closed_def)
  then have ne: "nodes \<noteq> []" "butlast nodes \<noteq> []" by (auto simp: butlast_conv_take)
  have "hd (butlast nodes) = butlast nodes ! 0" using ne by (simp add: hd_conv_nth)
  also have "\<dots> = nodes ! 0" using len by (simp add: nth_butlast)
  also have "\<dots> = last nodes" using cl ne by (simp add: last_conv_nth)
  finally show "nodes = butlast nodes @ [hd (butlast nodes)]" using ne by simp
  show "length (butlast nodes) \<ge> 2" using len by simp
  show "butlast nodes \<noteq> []" by (rule ne(2))
qed

lemma closed_ringI:
  assumes "length xs \<ge> 2"
  shows "is_closed (xs @ [hd xs])"
proof -
  have "xs \<noteq> []" using assms by auto
  then have "(xs @ [hd xs]) ! 0 = hd xs" by (simp add: nth_append hd_conv_nth)
  then show ?thesis using assms by (simp add: is_closed_def)
qed

lemma count_list_one_index:
  assumes c: "count_list xs m = 1" and i: "i < length xs" and j: "j < length xs"
    and xi: "xs ! i = m" and xj: "xs ! j = m"
  shows "i = j"
proof -
  have aux: False if ij: "a < b" and b: "b < length xs" and xa: "xs ! a = m" and xb: "xs ! b = m" for a b
  proof -
    have "xs = take b xs @ xs ! b # drop (Suc b) xs" using b by (rule id_take_nth_drop)
    then have "count_list xs m = count_list (take b xs) m + 1 + count_list (drop (Suc b) xs) m"
      using xb by (metis (no_types, lifting) add.assoc add.commute count_list.simps(2) count_list_append)
    moreover have "m \<in> set (take b xs)"
      using ij b xa by (auto simp: in_set_conv_nth intro!: exI[of _ a])
    then have "count_list (take b xs) m > 0" by (metis count_list_0_iff gr0I)
    ultimately show False using c by simp
  qed
  show ?thesis
  proof (cases i j rule: linorder_cases)
    case less then show ?thesis using aux[of i j] assms by auto
  next
    case greater then show ?thesis using aux[of j i] assms by auto
  qed simp
qed

lemma rotate_unique_hd:
  assumes ne: "xs \<noteq> []" and c: "count_list xs m = 1"
    and a: "hd (rotate a xs) = m" and b: "hd (rotate b xs) = m"
  shows "rotate a xs = rotate b xs"
proof -
  have n: "length xs > 0" using ne by simp
  have "xs ! (a mod length xs) = m" "xs ! (b mod length xs) = m"
    using a b ne by (simp_all add: hd_rotate_conv_nth)
  then have "a mod length xs = b mod length xs"
    using count_list_one_index[OF c] n by simp
  then show ?thesis by (metis rotate_conv_mod)
qed

lemma rotate_unique_last:
  assumes ne: "xs \<noteq> []" and c: "count_list xs m = 1"
    and a: "last (rotate a xs) = m" and b: "last (rotate b xs) = m"
  shows "rotate a xs = rotate b xs"
proof -
  let ?n = "length xs"
  have n: "?n > 0" using ne by simp
  have shift: "rotate k xs = rotate1 (rotate (k + ?n - 1) xs)" for k
  proof -
    have "rotate1 (rotate (k + ?n - 1) xs) = rotate (Suc (k + ?n - 1)) xs" by simp
    also have "Suc (k + ?n - 1) = k + ?n" using n by simp
    also have "rotate (k + ?n) xs = rotate k xs"
      by (metis mod_add_self2 rotate_conv_mod)
    finally show ?thesis by simp
  qed
  have lh: "last (rotate1 zs) = hd zs" if "zs \<noteq> []" for zs :: "'a list"
    using that by (cases zs) auto
  have hl: "hd (rotate (k + ?n - 1) xs) = last (rotate k xs)" for k
    using lh[of "rotate (k + ?n - 1) xs"] shift[of k] ne by simp
  have "hd (rotate (a + ?n - 1) xs) = m" "hd (rotate (b + ?n - 1) xs) = m"
    using a b hl by simp_all
  then have "rotate (a + ?n - 1) xs = rotate (b + ?n - 1) xs"
    by (rule rotate_unique_hd[OF ne c])
  then show ?thesis using shift[of a] shift[of b] by simp
qed

lemma get_ordered_nodes_ring:
  assumes "length xs \<ge> 2"
  shows "\<exists>l. get_ordered_nodes (xs @ [hd xs]) = rotate l xs @ [Min (set xs)]
             \<and> hd (rotate l xs) = Min (set xs)"
proof -
  let ?ns = "xs @ [hd xs]"
  have ne: "xs \<noteq> []" using assms by auto
  have cl: "is_closed ?ns" using assms by (rule closed_ringI)
  let ?l = "lowest_index ?ns"
  have l: "?l < length xs" using lowest_index_closed[OF cl] by simp
  have "set ?ns = set xs" using ne by auto
  then have m: "?ns ! ?l = Min (set xs)" using lowest_index_Min[of ?ns] by simp
  then have m': "xs ! ?l = Min (set xs)" using l by (simp add: nth_append)
  have "get_ordered_nodes ?ns = rotate ?l xs @ [Min (set xs)]"
    using get_ordered_nodes_closed[OF cl] m by simp
  moreover have "hd (rotate ?l xs) = Min (set xs)"
    using ne l m' by (simp add: hd_rotate_conv_nth)
  ultimately show ?thesis by blast
qed

lemma get_ordered_nodes_rotate_ring:
  assumes cl: "is_closed nodes"
    and uniq: "count_list (butlast nodes) (Min (set nodes)) = 1"
  shows "get_ordered_nodes (rotate_ring k nodes) = get_ordered_nodes nodes"
proof -
  let ?xs = "butlast nodes" and ?m = "Min (set nodes)"
  note d = closed_ring_decomp[OF cl]
  have ne: "?xs \<noteq> []" by (rule d(3))
  have sx: "set nodes = set ?xs" using d(1) ne by (metis Un_insert_right append_Nil2 hd_in_set insert_absorb list.simps(15) set_append)
  obtain l where l: "get_ordered_nodes nodes = rotate l ?xs @ [?m]" "hd (rotate l ?xs) = ?m"
    using get_ordered_nodes_ring[OF d(2)] d(1) sx by metis
  let ?ys = "rotate k ?xs"
  have ly: "length ?ys \<ge> 2" using d(2) by simp
  have sy: "set ?ys = set nodes" using sx by simp
  obtain l' where l': "get_ordered_nodes (?ys @ [hd ?ys]) = rotate l' ?ys @ [?m]"
     "hd (rotate l' ?ys) = ?m"
    using get_ordered_nodes_ring[OF ly] sy by metis
  have "rotate l' ?ys = rotate (l' + k) ?xs" by (simp add: rotate_rotate)
  moreover have "rotate (l' + k) ?xs = rotate l ?xs"
    using rotate_unique_hd[OF ne uniq] l'(2) l(2) by (simp add: rotate_rotate)
  ultimately show ?thesis using l l' by (simp add: rotate_ring_def)
qed

lemma get_ordered_nodes_rev_rotate_ring:
  assumes cl: "is_closed nodes"
    and uniq: "count_list (butlast nodes) (Min (set nodes)) = 1"
  shows "get_ordered_nodes (rev (rotate_ring k nodes)) = rev (get_ordered_nodes nodes)"
proof -
  let ?xs = "butlast nodes" and ?m = "Min (set nodes)"
  note d = closed_ring_decomp[OF cl]
  have ne: "?xs \<noteq> []" by (rule d(3))
  have sx: "set nodes = set ?xs" using d(1) ne by (metis Un_insert_right append_Nil2 hd_in_set insert_absorb list.simps(15) set_append)
  obtain l where l: "get_ordered_nodes nodes = rotate l ?xs @ [?m]" "hd (rotate l ?xs) = ?m"
    using get_ordered_nodes_ring[OF d(2)] d(1) sx by metis
  have rr: "rev (zs @ [hd zs]) = rev (rotate1 zs) @ [hd (rev (rotate1 zs))]"
    if "zs \<noteq> []" for zs :: "int list"
    using that by (cases zs) auto
  let ?ys = "rotate k ?xs"
  let ?zs = "rev (rotate1 ?ys)"
  have yne: "?ys \<noteq> []" using ne by simp
  have lz: "length ?zs \<ge> 2" using d(2) by simp
  have sz: "set ?zs = set nodes" using sx by simp
  have e1: "rev (rotate_ring k nodes) = ?zs @ [hd ?zs]"
    unfolding rotate_ring_def using rr[OF yne] .
  obtain l' where l': "get_ordered_nodes (?zs @ [hd ?zs]) = rotate l' ?zs @ [?m]"
     "hd (rotate l' ?zs) = ?m"
    using get_ordered_nodes_ring[OF lz] sz by metis
  obtain j where j: "rotate l' ?zs = rev (rotate j ?xs)"
    by (metis rotate_rev rotate_rotate rotate1_rotate_swap length_rotate rotate1_def rotate_Suc)
  have lastj: "last (rotate j ?xs) = ?m" using l'(2) j ne by (simp add: hd_rev)
  have "rotate l ?xs \<noteq> []" using ne by simp
  then have "rev (rotate l ?xs @ [?m]) = rev (rotate1 (rotate l ?xs)) @ [?m]"
    using l(2) by (cases "rotate l ?xs") auto
  moreover have "last (rotate1 (rotate l ?xs)) = ?m"
    using l(2) \<open>rotate l ?xs \<noteq> []\<close> by (cases "rotate l ?xs") auto
  then have "rotate j ?xs = rotate (Suc l) ?xs"
    using rotate_unique_last[OF ne uniq lastj, of "Suc l"] by simp
  ultimately show ?thesis using l l' j e1 by simp
qed

lemma length_rotate_ring: "is_closed nodes \<Longrightarrow> length (rotate_ring k nodes) = length nodes"
  by (auto simp: rotate_ring_def is_closed_def)

lemma verify_duplicate_ways_single:
  "verify_duplicate_ways [w] nodes =
     (if length (way_nodes w) = length nodes
      then (if get_ordered_nodes (way_nodes w) = get_ordered_nodes nodes then [(w, ''way'')]
            else if get_ordered_nodes (way_nodes w) = rev (get_ordered_nodes nodes)
            then [(w, ''reverse_way'')] else [])
      else [])"
  by simp

text \<open>
  Claim C2, as the code has it. For a closed node sequence whose lowest identity occurs
  exactly once in the ring, and for every rotation of it: both are mapped by
  \<open>get_ordered_nodes\<close> to the same representative, and \<open>verify_duplicate_ways\<close>
  reports the pair as a duplicate with role \<open>way\<close>, whichever of the two is the
  existing way. When one of the two is reversed as well, the pair is reported with role
  \<open>reverse_way\<close>, unless the representative reads the same in both directions: the
  test for \<open>way\<close> comes first, and the pair is then reported with role \<open>way\<close>.
\<close>

theorem rotated_ring_is_duplicate:
  assumes "is_closed nodes"
    and "count_list (butlast nodes) (Min (set nodes)) = 1"
    and "rotated = rotate_ring k nodes"
  shows "get_ordered_nodes rotated = get_ordered_nodes nodes
       \<and> verify_duplicate_ways [w\<lparr>way_nodes := rotated\<rparr>] nodes
           = [(w\<lparr>way_nodes := rotated\<rparr>, ''way'')]
       \<and> verify_duplicate_ways [w\<lparr>way_nodes := nodes\<rparr>] rotated
           = [(w\<lparr>way_nodes := nodes\<rparr>, ''way'')]
       \<and> verify_duplicate_ways [w\<lparr>way_nodes := rev rotated\<rparr>] nodes
           = [(w\<lparr>way_nodes := rev rotated\<rparr>,
               if rev (get_ordered_nodes nodes) = get_ordered_nodes nodes
               then ''way'' else ''reverse_way'')]
       \<and> verify_duplicate_ways [w\<lparr>way_nodes := nodes\<rparr>] (rev rotated)
           = [(w\<lparr>way_nodes := nodes\<rparr>,
               if rev (get_ordered_nodes nodes) = get_ordered_nodes nodes
               then ''way'' else ''reverse_way'')]"
proof -
  have len: "length rotated = length nodes"
    using assms(1,3) by (simp add: length_rotate_ring)
  have c1: "get_ordered_nodes rotated = get_ordered_nodes nodes"
    using get_ordered_nodes_rotate_ring[OF assms(1,2)] assms(3) by simp
  have c2: "get_ordered_nodes (rev rotated) = rev (get_ordered_nodes nodes)"
    using get_ordered_nodes_rev_rotate_ring[OF assms(1,2)] assms(3) by simp
  show ?thesis
    unfolding verify_duplicate_ways_single using len c1 c2 by auto
qed

text \<open>
  The ring \<open>[5, 3, 4, 5]\<close> and its rotation \<open>[4, 5, 3, 4]\<close>; reversed, the
  rotation is \<open>[4, 3, 5, 4]\<close>.
\<close>

theorem rotated_ring_is_duplicate_witness:
  "is_closed [5, 3, 4, 5]
   \<and> count_list (butlast [5, 3, 4, 5]) (Min (set [5, 3, 4, 5::int])) = 1
   \<and> rotate_ring 2 [5, 3, 4, 5] = [4, 5, 3, 4]
   \<and> get_ordered_nodes [4, 5, 3, 4] = get_ordered_nodes [5, 3, 4, 5]
   \<and> verify_duplicate_ways
        [\<lparr>way_id = 9, way_tags = Map.empty, way_nodes = [4, 5, 3, 4], way_parents = {}\<rparr>]
        [5, 3, 4, 5]
      = [(\<lparr>way_id = 9, way_tags = Map.empty, way_nodes = [4, 5, 3, 4], way_parents = {}\<rparr>,
          ''way'')]
   \<and> verify_duplicate_ways
        [\<lparr>way_id = 9, way_tags = Map.empty, way_nodes = [4, 3, 5, 4], way_parents = {}\<rparr>]
        [5, 3, 4, 5]
      = [(\<lparr>way_id = 9, way_tags = Map.empty, way_nodes = [4, 3, 5, 4], way_parents = {}\<rparr>,
          ''reverse_way'')]"
proof -
  have h1: "is_closed [5, 3, 4, 5]" by (simp add: is_closed_def)
  have h2: "count_list (butlast [5, 3, 4, 5]) (Min (set [5, 3, 4, 5::int])) = 1" by simp
  have h3: "[4, 5, 3, 4] = rotate_ring 2 [5, 3, 4, 5]"
    by (simp add: rotate_ring_def numeral_2_eq_2)
  have h4: "rev (get_ordered_nodes [5, 3, 4, 5]) \<noteq> get_ordered_nodes [5, 3, 4, 5]"
    by (simp add: get_ordered_nodes_def is_closed_def lowest_index_def lowest_index_step_def upt_rec)
  show ?thesis
    using h1 h2 h3[symmetric] h4
      rotated_ring_is_duplicate[OF h1 h2 h3,
        of "\<lparr>way_id = 9, way_tags = Map.empty, way_nodes = [], way_parents = {}\<rparr>"]
    by (simp del: verify_duplicate_ways.simps)
qed

text \<open>
  Claim C2 as stated fails where the lowest identity occurs twice in the ring (a ring
  that touches itself in that node): \<open>[1, 2, 1, 3, 4, 1]\<close> and its rotation
  \<open>[1, 3, 4, 1, 2, 1]\<close> both start at their first \<open>1\<close> and are left as they are,
  so the pair is not reported at all. And the reverse of \<open>[1, 2, 3, 2, 1]\<close> is the
  sequence itself, reported with role \<open>way\<close>.
\<close>

theorem rotated_ring_counterexample:
  "is_closed [1, 2, 1, 3, 4, 1]
   \<and> rotate_ring 2 [1, 2, 1, 3, 4, 1] = [1, 3, 4, 1, 2, 1]
   \<and> get_ordered_nodes [1, 3, 4, 1, 2, 1] \<noteq> get_ordered_nodes [1, 2, 1, 3, 4, 1]
   \<and> verify_duplicate_ways
        [\<lparr>way_id = 9, way_tags = Map.empty, way_nodes = [1, 3, 4, 1, 2, 1], way_parents = {}\<rparr>]
        [1, 2, 1, 3, 4, 1] = []
   \<and> is_closed [1, 2, 3, 2, 1]
   \<and> rev [1, 2, 3, 2, 1] = [1, 2, 3, 2, 1::int]
   \<and> verify_duplicate_ways
        [\<lparr>way_id = 9, way_tags = Map.empty, way_nodes = rev [1, 2, 3, 2, 1], way_parents = {}\<rparr>]
        [1, 2, 3, 2, 1]
      = [(\<lparr>way_id = 9, way_tags = Map.empty, way_nodes = [1, 2, 3, 2, 1], way_parents = {}\<rparr>,
          ''way'')]"
  by (simp add: get_ordered_nodes_def is_closed_def lowest_index_def lowest_index_step_def
      upt_rec rotate_ring_def numeral_2_eq_2)

text \<open>
  Claim C3, as the code has it. For every closed node sequence, the result of
  \<open>get_ordered_nodes\<close> starts at the node with the lowest identity and is closed at
  that node again: it has the length of its argument, and without its last node it is
  the ring of the argument (the argument without its closing node) rotated to the first
  position of the lowest identity. An open sequence is returned unchanged.
\<close>

theorem get_ordered_nodes_canonical:
  "(is_closed nodes \<longrightarrow>
      hd (get_ordered_nodes nodes) = Min (set nodes)
    \<and> last (get_ordered_nodes nodes) = Min (set nodes)
    \<and> length (get_ordered_nodes nodes) = length nodes
    \<and> butlast (get_ordered_nodes nodes) = rotate (lowest_index nodes) (butlast nodes))
   \<and> (\<not> is_closed nodes \<longrightarrow> get_ordered_nodes nodes = nodes)"
proof (intro conjI impI)
  assume cl: "is_closed nodes"
  note d = closed_ring_decomp[OF cl]
  have ne: "nodes \<noteq> []" using cl by (auto simp: is_closed_def)
  have l: "lowest_index nodes < length (butlast nodes)"
    using lowest_index_closed[OF cl] by simp
  have m: "nodes ! lowest_index nodes = Min (set nodes)" by (rule lowest_index_Min[OF ne])
  have g: "get_ordered_nodes nodes
             = rotate (lowest_index nodes) (butlast nodes) @ [Min (set nodes)]"
    using get_ordered_nodes_closed[OF cl] m by simp
  have "hd (rotate (lowest_index nodes) (butlast nodes)) = butlast nodes ! lowest_index nodes"
    using d(3) l by (simp add: hd_rotate_conv_nth)
  also have "\<dots> = Min (set nodes)" using l m by (simp add: nth_butlast)
  finally show "hd (get_ordered_nodes nodes) = Min (set nodes)"
    using g d(3) by simp
  show "last (get_ordered_nodes nodes) = Min (set nodes)" using g by simp
  show "length (get_ordered_nodes nodes) = length nodes" using g ne by simp
  show "butlast (get_ordered_nodes nodes) = rotate (lowest_index nodes) (butlast nodes)"
    using g by simp
next
  assume "\<not> is_closed nodes"
  then show "get_ordered_nodes nodes = nodes" by (simp add: get_ordered_nodes_def)
qed

theorem get_ordered_nodes_canonical_witness:
  "is_closed [5, 3, 4, 5]
   \<and> hd (get_ordered_nodes [5, 3, 4, 5]) = 3
   \<and> last (get_ordered_nodes [5, 3, 4, 5]) = 3
   \<and> length (get_ordered_nodes [5, 3, 4, 5]) = 4
   \<and> \<not> is_closed [5, 3, 4]
   \<and> get_ordered_nodes [5, 3, 4] = [5, 3, 4]"
  using get_ordered_nodes_canonical[of "[5, 3, 4, 5]"] get_ordered_nodes_canonical[of "[5, 3, 4]"]
  by (simp add: is_closed_def)

text \<open>
  Claim C3 as stated fails: the representative of the closed sequence
  \<open>[1, 2, 3, 1]\<close> is the sequence itself, closing node included, and is not one
  element shorter.
\<close>

theorem get_ordered_nodes_shorter_counterexample:
  "is_closed [1, 2, 3, 1]
   \<and> get_ordered_nodes [1, 2, 3, 1] = [1, 2, 3, 1]
   \<and> length (get_ordered_nodes [1, 2, 3, 1]) \<noteq> length [1, 2, 3, 1::int] - 1"
  by (simp add: get_ordered_nodes_def is_closed_def lowest_index_def lowest_index_step_def upt_rec)

section \<open>Properties of the relation duplicate check\<close>

text \<open>
  Claim C6. \<open>verify_duplicate_relations\<close> keeps exactly the candidates whose ordered
  (member, role) list equals the given one. A relation whose member list holds the same
  pairs in another order is not reported.
\<close>

theorem verify_duplicate_relations_exact:
  "verify_duplicate_relations rels members
     = filter (\<lambda>r. relation_members r = members) rels
   \<and> (mset (relation_members r) = mset members \<and> relation_members r \<noteq> members
        \<longrightarrow> r \<notin> set (verify_duplicate_relations rels members))"
proof -
  have "verify_duplicate_relations rels members = filter (\<lambda>r. relation_members r = members) rels"
    by (induction rels) auto
  then show ?thesis by auto
qed

theorem verify_duplicate_relations_exact_witness:
  "mset [(WayRef 1, ''outer''), (WayRef 2, ''inner'')]
     = mset [(WayRef 2, ''inner''), (WayRef 1, ''outer'')]
   \<and> [(WayRef 1, ''outer''), (WayRef 2, ''inner'')]
       \<noteq> [(WayRef 2, ''inner''), (WayRef 1, ''outer'')]
   \<and> verify_duplicate_relations
       [\<lparr>relation_id = 7, relation_tags = Map.empty,
         relation_members = [(WayRef 1, ''outer''), (WayRef 2, ''inner'')],
         relation_parents = {}\<rparr>]
       [(WayRef 2, ''inner''), (WayRef 1, ''outer'')] = []"
  using verify_duplicate_relations_exact[of
      "[\<lparr>relation_id = 7, relation_tags = Map.empty,
         relation_members = [(WayRef 1, ''outer''), (WayRef 2, ''inner'')],
         relation_parents = {}\<rparr>]"
      "[(WayRef 2, ''inner''), (WayRef 1, ''outer'')]"]
  by simp

section \<open>Properties of node interning\<close>

lemma merge_duplicate_node_reject:
  assumes "\<And>a b. merge_tags opts ''node'' a b = None"
    and "\<forall>i\<in>set bucket. i < length (osm_nodes s)"
  shows "merge_duplicate_node opts tgs bucket s = Inr None"
  using assms(2) by (induction bucket) (simp_all add: assms(1))

lemma index_in_range_bucket:
  "index_in_range s \<Longrightarrow> unique_node_index s key = Some bucket \<Longrightarrow> i \<in> set bucket
     \<Longrightarrow> i < length (osm_nodes s)"
  by (auto simp: index_in_range_def ran_def)

lemma add_node_quantized:
  "round_number opts x = Inr rx \<Longrightarrow> round_number opts y = Inr ry \<Longrightarrow>
   add_node opts x y tgs is_way_member s
     = intern_node opts (unique_node_id opts rx ry tgs is_way_member) x y tgs s"
  by (simp add: add_node_def)

lemma add_node_interned:
  "add_node opts x y tgs is_way_member s = Inr r \<Longrightarrow>
   \<exists>key. intern_node opts key x y tgs s = Inr r"
  by (auto simp: add_node_def split: sum.splits)

lemma intern_node_reject:
  assumes rej: "\<And>a b. merge_tags opts ''node'' a b = None"
    and inv: "index_in_range s"
  shows "intern_node opts key x y tgs s =
           Inr (append_node key (case unique_node_index s key of None \<Rightarrow> [] | Some b \<Rightarrow> b)
                  x y tgs s)"
proof (cases "unique_node_index s key")
  case None
  then show ?thesis by (simp add: intern_node_def)
next
  case (Some b)
  have "merge_duplicate_node opts tgs b s = Inr None"
    using index_in_range_bucket[OF inv Some] by (intro merge_duplicate_node_reject rej) auto
  then show ?thesis using Some by (simp add: intern_node_def)
qed

lemma index_in_range_append_node:
  assumes "index_in_range s" "\<forall>i\<in>set bucket. i < length (osm_nodes s)"
  shows "index_in_range (snd (append_node key bucket x y tgs s))"
  using assms
  apply (simp add: append_node_def OsmPoint_def index_in_range_def ran_def)
  by (auto simp: less_Suc_eq split: if_splits)


lemma merge_duplicate_node_frame:
  "merge_duplicate_node opts tgs bucket s = Inr (Some (n, s'))
     \<Longrightarrow> unique_node_index s' = unique_node_index s
       \<and> length (osm_nodes s') = length (osm_nodes s)
       \<and> osm_ways s' = osm_ways s \<and> osm_relations s' = osm_relations s
       \<and> element_id_counter s' = element_id_counter s \<and> warnings s' = warnings s"
  by (induction bucket) (auto split: if_splits option.splits)

lemma intern_node_index_in_range:
  assumes "index_in_range s" and "intern_node opts key x y tgs s = Inr (n, s')"
  shows "index_in_range s'"
proof (cases "unique_node_index s key")
  case None
  then show ?thesis
    using assms index_in_range_append_node[OF assms(1), of "[]" key x y tgs]
    by (auto simp: intern_node_def)
next
  case (Some b)
  have bv: "\<forall>i\<in>set b. i < length (osm_nodes s)"
    using index_in_range_bucket[OF assms(1) Some] by simp
  show ?thesis
  proof (cases "merge_duplicate_node opts tgs b s")
    case (Inl e)
    then show ?thesis using assms Some by (simp add: intern_node_def)
  next
    case (Inr r)
    show ?thesis
    proof (cases r)
      case None
      then show ?thesis
        using assms \<open>unique_node_index s _ = Some b\<close> Inr
          index_in_range_append_node[OF assms(1) bv, of key x y tgs]
        by (auto simp: intern_node_def)
    next
      case (Some found)
      then have "merge_duplicate_node opts tgs b s = Inr (Some (n, s'))"
        using assms \<open>unique_node_index s _ = Some b\<close> Inr by (simp add: intern_node_def)
      from merge_duplicate_node_frame[OF this] show ?thesis
        using assms(1) by (simp add: index_in_range_def)
    qed
  qed
qed

lemma add_node_index_in_range:
  assumes "index_in_range s" and "add_node opts x y tgs is_way_member s = Inr (n, s')"
  shows "index_in_range s'"
  using add_node_interned[OF assms(2)] intern_node_index_in_range[OF assms(1)] by blast

lemma index_in_range_init: "index_in_range init_osm_data"
  by (simp add: index_in_range_def init_osm_data_def)

lemma intern_node_hit:
  assumes "unique_node_index s key = Some (i # rest)"
    and "i < length (osm_nodes s)"
    and "merge_tags opts ''node'' (point_tags (osm_nodes s ! i)) tgs = Some m"
  shows "intern_node opts key x y tgs s =
           Inr ((osm_nodes s ! i)\<lparr>point_tags := m\<rparr>,
                s\<lparr>osm_nodes := (osm_nodes s)[i := (osm_nodes s ! i)\<lparr>point_tags := m\<rparr>]\<rparr>)"
  using assms by (simp add: intern_node_def)

lemma intern_node_accept_first:
  assumes acc: "\<forall>a b. merge_tags opts ''node'' a b \<noteq> None"
    and inv: "index_in_range s"
  shows "\<exists>n1 s1 i rest.
           intern_node opts key x y tgs s = Inr (n1, s1)
         \<and> unique_node_index s1 key = Some (i # rest)
         \<and> i < length (osm_nodes s1) \<and> osm_nodes s1 ! i = n1"
proof -
  have fresh: ?thesis if b: "unique_node_index s key = None \<or> unique_node_index s key = Some []"
  proof -
    have "intern_node opts key x y tgs s = Inr (append_node key [] x y tgs s)"
      using b by (auto simp: intern_node_def)
    then show ?thesis
      by (simp add: append_node_def OsmPoint_def)
  qed
  show ?thesis
  proof (cases "unique_node_index s key")
    case None
    then show ?thesis using fresh by simp
  next
    case (Some b)
    show ?thesis
    proof (cases b)
      case Nil
      then show ?thesis using fresh Some by simp
    next
      case (Cons i rest)
      have i: "i < length (osm_nodes s)"
        using index_in_range_bucket[OF inv Some] Cons by simp
      obtain m where m: "merge_tags opts ''node'' (point_tags (osm_nodes s ! i)) tgs = Some m"
        using acc by fastforce
      show ?thesis
        using intern_node_hit[OF Some[unfolded Cons] i m] Some Cons i by simp
    qed
  qed
qed

text \<open>
  Claim C4. Let the merge policy decline every merge of nodes, and let \<open>(x1, y1)\<close>
  and \<open>(x2, y2)\<close> quantize to the same key \<open>(rx, ry)\<close>. Interning both as way-member
  nodes, in a store whose index is well formed, returns two nodes of distinct
  identities, appends both to the node list, and appends both their positions to the
  bucket of that key, so that a later lookup under the key visits both.
\<close>

theorem add_node_rejected_distinct:
  assumes "\<forall>a b. merge_tags opts ''node'' a b = None"
    and "index_in_range s"
    and "round_number opts x1 = Inr rx" and "round_number opts x2 = Inr rx"
    and "round_number opts y1 = Inr ry" and "round_number opts y2 = Inr ry"
  shows "\<exists>n1 s1 n2 s2 bucket.
           add_node opts x1 y1 tags1 True s = Inr (n1, s1)
         \<and> add_node opts x2 y2 tags2 True s1 = Inr (n2, s2)
         \<and> point_id n1 \<noteq> point_id n2
         \<and> osm_nodes s2 = osm_nodes s @ [n1, n2]
         \<and> unique_node_index s2 (Coordinates rx ry)
             = Some (bucket @ [length (osm_nodes s), length (osm_nodes s) + 1])
         \<and> bucket = (case unique_node_index s (Coordinates rx ry)
                      of None \<Rightarrow> [] | Some b \<Rightarrow> b)"
proof -
  let ?key = "Coordinates rx ry :: 'b node_key"
  let ?b = "case unique_node_index s ?key of None \<Rightarrow> [] | Some b \<Rightarrow> b"
  have rej: "\<And>a b. merge_tags opts ''node'' a b = None" using assms(1) by simp
  have q1: "add_node opts x1 y1 tags1 True s' = intern_node opts ?key x1 y1 tags1 s'" for s'
    using add_node_quantized[OF assms(3,5)] by (simp add: unique_node_id_def)
  have q2: "add_node opts x2 y2 tags2 True s' = intern_node opts ?key x2 y2 tags2 s'" for s'
    using add_node_quantized[OF assms(4,6)] by (simp add: unique_node_id_def)
  obtain n1 s1 where a1: "append_node ?key ?b x1 y1 tags1 s = (n1, s1)" by force
  have r1: "add_node opts x1 y1 tags1 True s = Inr (n1, s1)"
    using intern_node_reject[OF rej assms(2), of ?key x1 y1 tags1] a1 q1 by simp
  have bv: "\<forall>i\<in>set ?b. i < length (osm_nodes s)"
  proof (cases "unique_node_index s ?key")
    case None
    then show ?thesis by simp
  next
    case (Some b)
    then show ?thesis using index_in_range_bucket[OF assms(2) Some] by simp
  qed
  have inv1: "index_in_range s1"
    using index_in_range_append_node[OF assms(2) bv, of ?key x1 y1 tags1] a1 by simp
  have b1: "unique_node_index s1 ?key = Some (?b @ [length (osm_nodes s)])"
    and nodes1: "osm_nodes s1 = osm_nodes s @ [n1]"
    and id1: "point_id n1 = element_id_counter s + 1"
    and c1: "element_id_counter s1 = element_id_counter s + 1"
    using a1 by (auto simp: append_node_def OsmPoint_def)
  obtain n2 s2 where a2: "append_node ?key (?b @ [length (osm_nodes s)]) x2 y2 tags2 s1 = (n2, s2)"
    by force
  have r2: "add_node opts x2 y2 tags2 True s1 = Inr (n2, s2)"
    using intern_node_reject[OF rej inv1, of ?key x2 y2 tags2] a2 b1 q2 by simp
  have b2: "unique_node_index s2 ?key
              = Some (?b @ [length (osm_nodes s), length (osm_nodes s) + 1])"
    and nodes2: "osm_nodes s2 = osm_nodes s @ [n1, n2]"
    and id2: "point_id n2 = element_id_counter s + 2"
    using a2 nodes1 c1 by (auto simp: append_node_def OsmPoint_def)
  show ?thesis using r1 r2 b2 nodes2 id1 id2 by auto
qed

theorem add_node_rejected_distinct_witness:
  "(\<forall>a b. merge_tags never_merge ''node'' a b = None)
   \<and> index_in_range (init_osm_data :: (int, unit) osm_data)
   \<and> round_number never_merge 11 = Inr 1 \<and> round_number never_merge 12 = Inr 1
   \<and> round_number never_merge 25 = Inr 2 \<and> round_number never_merge 27 = Inr 2
   \<and> (\<exists>n1 s1 n2 s2.
         add_node never_merge 11 25 Map.empty True init_osm_data = Inr (n1, s1)
       \<and> add_node never_merge 12 27 Map.empty True s1 = Inr (n2, s2)
       \<and> point_id n1 \<noteq> point_id n2
       \<and> osm_nodes s2 = [n1, n2]
       \<and> unique_node_index s2 (Coordinates 1 2) = Some [0, 1])"
proof -
  have h1: "\<forall>a b. merge_tags never_merge ''node'' a b = None" by (simp add: never_merge_def)
  have h2: "index_in_range (init_osm_data :: (int, unit) osm_data)"
    by (simp add: index_in_range_def init_osm_data_def)
  have h3: "round_number never_merge 11 = Inr 1" "round_number never_merge 12 = Inr 1"
    by (simp_all add: never_merge_def)
  have h4: "round_number never_merge 25 = Inr 2" "round_number never_merge 27 = Inr 2"
    by (simp_all add: never_merge_def)
  have e: "osm_nodes (init_osm_data :: (int, unit) osm_data) = []"
    "unique_node_index (init_osm_data :: (int, unit) osm_data) = Map.empty"
    by (simp_all add: init_osm_data_def)
  show ?thesis
    using h1 h2 h3 h4
      add_node_rejected_distinct[OF h1 h2 h3 h4, of Map.empty Map.empty]
    unfolding e by simp
qed

text \<open>
  Claim C5, as the code has it. Let the merge policy accept every merge of nodes, and
  let \<open>x\<close> and \<open>y\<close> be coordinates that the quantizer takes (numbers within its
  range). Interning the same \<open>(x, y, tags)\<close> twice as a way-member node, in a store
  whose index is well formed, returns a node of the same identity both times; the second
  call creates no node, and the tags of the node it returns are the result of
  \<open>merge_tags\<close> on the tags the node had after the first call and the incoming tags.
\<close>

theorem add_node_accepted_same:
  assumes "\<forall>a b. merge_tags opts ''node'' a b \<noteq> None"
    and "index_in_range s"
    and "round_number opts x = Inr rx" and "round_number opts y = Inr ry"
  shows "\<exists>n1 s1 n2 s2.
           add_node opts x y tgs True s = Inr (n1, s1)
         \<and> add_node opts x y tgs True s1 = Inr (n2, s2)
         \<and> point_id n2 = point_id n1
         \<and> length (osm_nodes s2) = length (osm_nodes s1)
         \<and> n2 \<in> set (osm_nodes s2)
         \<and> merge_tags opts ''node'' (point_tags n1) tgs = Some (point_tags n2)"
proof -
  let ?key = "Coordinates rx ry :: 'b node_key"
  have q: "add_node opts x y tgs True s' = intern_node opts ?key x y tgs s'" for s'
    using add_node_quantized[OF assms(3,4)] by (simp add: unique_node_id_def)
  obtain n1 s1 i rest where
    r1: "intern_node opts ?key x y tgs s = Inr (n1, s1)"
    and b1: "unique_node_index s1 ?key = Some (i # rest)"
    and i: "i < length (osm_nodes s1)" and n1: "osm_nodes s1 ! i = n1"
    using intern_node_accept_first[OF assms(1,2), of ?key x y tgs] by blast
  obtain m where m: "merge_tags opts ''node'' (point_tags (osm_nodes s1 ! i)) tgs = Some m"
    using assms(1) by fastforce
  note r2 = intern_node_hit[OF b1 i m, of x y]
  show ?thesis
    using r1 r2 i n1 m q by (auto simp: set_update_memI)
qed

theorem add_node_accepted_same_witness:
  "(\<forall>a b. merge_tags always_merge ''node'' a b \<noteq> None)
   \<and> index_in_range (init_osm_data :: (int, unit) osm_data)
   \<and> round_number always_merge 11 = Inr 1 \<and> round_number always_merge 25 = Inr 2
   \<and> (\<exists>n1 s1 n2 s2.
         add_node always_merge 11 25 [''name'' \<mapsto> ''a''] True init_osm_data = Inr (n1, s1)
       \<and> add_node always_merge 11 25 [''name'' \<mapsto> ''a''] True s1 = Inr (n2, s2)
       \<and> point_id n2 = point_id n1
       \<and> length (osm_nodes s2) = length (osm_nodes s1)
       \<and> merge_tags always_merge ''node'' (point_tags n1) [''name'' \<mapsto> ''a'']
           = Some (point_tags n2))"
proof -
  have h1: "\<forall>a b. merge_tags always_merge ''node'' a b \<noteq> None" by (simp add: always_merge_def)
  have h2: "index_in_range (init_osm_data :: (int, unit) osm_data)"
    by (simp add: index_in_range_def init_osm_data_def)
  have h3: "round_number always_merge 11 = Inr 1" "round_number always_merge 25 = Inr 2"
    by (simp_all add: always_merge_def)
  show ?thesis
    using h1 h2 h3 add_node_accepted_same[OF h1 h2 h3, of "[''name'' \<mapsto> ''a'']"]
    by blast
qed

text \<open>
  Claim C5 as stated fails for a coordinate that the quantizer does not take. For a
  coordinate that is not a number, \<^verbatim>\<open>round\<close> raises \<^verbatim>\<open>ValueError\<close> in
  \<^verbatim>\<open>__round_number\<close>, and for an infinite one \<^verbatim>\<open>OverflowError\<close>, before any node
  is looked up: no node is returned, under the policy that always merges as under any
  other. The code checks its coordinates nowhere.
\<close>

theorem add_node_not_a_number_counterexample:
  "add_node always_merge_float NaN (Number 25) [''name'' \<mapsto> ''a''] True init_osm_data
     = Inl ValueError
   \<and> add_node always_merge_float (Number 11) Infinity [''name'' \<mapsto> ''a''] True init_osm_data
       = Inl OverflowError"
  by (simp add: always_merge_float_def round_float_def add_node_def)

section \<open>Properties of the way splitter\<close>

lemma split_way_in_relations_total:
  "parts \<noteq> [] \<Longrightarrow> \<exists>s'. split_way_in_relations rels parts s = Inr s'"
  by (induction rels arbitrary: s) (auto simp: split_way_in_relation_def split: list.splits)

lemma split_long_way_total:
  assumes "2 \<le> max_points_in_way opts"
  shows "\<exists>s'. split_long_way opts i s = Inr s'"
proof (cases "max_points_in_way opts < int (length (way_nodes (osm_ways s ! i)))")
  case False
  then show ?thesis by (simp add: split_long_way_def)
next
  case True
  obtain chunks where "split_chunks (max_points_in_way opts) (way_nodes (osm_ways s ! i)) = Inr chunks"
    using assms by (auto simp: split_chunks_def range_step_def)
  moreover obtain created s0 where
    "new_split_ways (way_tags (osm_ways s ! i)) (length chunks - 1) s = (created, s0)"
    by force
  ultimately obtain parts s1 where sw: "split_way opts (osm_ways s ! i) s = Inr (parts, s1)"
    and "parts \<noteq> []"
    by (simp add: split_way_def)
  then show ?thesis
    using True split_way_in_relations_total[of parts "parent_relations (osm_ways s ! i) s1" s1]
    by (auto simp: split_long_way_def)
qed

lemma split_long_way_short:
  assumes "2 \<le> max_points_in_way opts" and "i < length (osm_ways s)"
    and "split_long_way opts i s = Inr s'"
  shows "shrunk (max_points_in_way opts) (osm_ways s) (osm_ways s')"
    and "int (length (way_nodes (osm_ways s' ! i))) \<le> max_points_in_way opts"
  using split_long_way_step[OF assms(3,2)] assms(1) by (auto simp: shrunk_refl)

lemma split_long_ways_from_tail:
  "tail_short opts n s \<Longrightarrow> n \<le> i \<Longrightarrow> split_long_ways_from opts i s = Inr s"
proof (induction opts i s rule: split_long_ways_from.induct)
  case (1 opts i s)
  show ?case
  proof (cases "i < length (osm_ways s)")
    case False
    then show ?thesis by (subst split_long_ways_from.simps) simp
  next
    case True
    have "int (length (way_nodes (osm_ways s ! i))) \<le> max_points_in_way opts"
      using "1.prems" True by (simp add: tail_short_def)
    then have st: "split_long_way opts i s = Inr s" by (simp add: split_long_way_def)
    have "split_long_ways_from opts (Suc i) s = Inr s"
      using "1.IH"[OF True st] "1.prems" by simp
    then show ?thesis using True st by (subst split_long_ways_from.simps) simp
  qed
qed

lemma tail_short_step:
  assumes "tail_short opts n s" and "i < length (osm_ways s)"
    and "split_long_way opts i s = Inr s'"
  shows "tail_short opts n s'"
proof -
  from split_long_way_step[OF assms(3,2)]
  have "s' = s \<or> shrunk (max_points_in_way opts) (osm_ways s) (osm_ways s')" by auto
  then show ?thesis
  proof
    assume "s' = s" then show ?thesis using assms(1) by simp
  next
    assume sh: "shrunk (max_points_in_way opts) (osm_ways s) (osm_ways s')"
    have "n \<le> length (osm_ways s')" using shrunk_length[OF sh] assms(1) by (simp add: tail_short_def)
    moreover have "int (length (way_nodes (osm_ways s' ! j))) \<le> max_points_in_way opts"
      if j: "n \<le> j" "j < length (osm_ways s')" for j
    proof (rule ccontr)
      assume "\<not> ?thesis"
      then have "max_points_in_way opts < int (length (way_nodes (osm_ways s' ! j)))" by simp
      from shrunk_long[OF sh j(2) this] show False using assms(1) j(1) by (auto simp: tail_short_def)
    qed
    ultimately show ?thesis by (simp add: tail_short_def)
  qed
qed

lemma split_long_ways_from_over:
  "tail_short opts n s \<Longrightarrow> i \<le> n \<Longrightarrow>
   split_long_ways_from opts i s = split_long_ways_over opts [i..<n] s"
proof (induction "n - i" arbitrary: i s)
  case 0
  then show ?case using split_long_ways_from_tail[of opts n s i] by simp
next
  case (Suc d)
  then have i: "i < n" "i < length (osm_ways s)" by (auto simp: tail_short_def)
  have up: "[i..<n] = i # [Suc i..<n]" using i by (simp add: upt_conv_Cons)
  show ?case
  proof (cases "split_long_way opts i s")
    case (Inl e)
    then show ?thesis using i up by (subst split_long_ways_from.simps) simp
  next
    case (Inr s1)
    have ts: "tail_short opts n s1" by (rule tail_short_step[OF Suc.prems(1) i(2) Inr])
    have "split_long_ways_from opts (Suc i) s1 = split_long_ways_over opts [Suc i..<n] s1"
      using Suc.hyps(1)[of "Suc i" s1] Suc.hyps(2) ts i by simp
    then show ?thesis using Inr i up by (subst split_long_ways_from.simps) simp
  qed
qed

lemma split_long_ways_over_short:
  assumes L: "2 \<le> max_points_in_way opts"
  shows "i \<le> n \<Longrightarrow> n \<le> length (osm_ways s) \<Longrightarrow>
     (\<forall>j<length (osm_ways s). j < i \<or> n \<le> j
         \<longrightarrow> int (length (way_nodes (osm_ways s ! j))) \<le> max_points_in_way opts) \<Longrightarrow>
     \<exists>s'. split_long_ways_over opts [i..<n] s = Inr s'
        \<and> shrunk (max_points_in_way opts) (osm_ways s) (osm_ways s')
        \<and> (\<forall>j<length (osm_ways s').
              int (length (way_nodes (osm_ways s' ! j))) \<le> max_points_in_way opts)"
proof (induction "n - i" arbitrary: i s)
  case 0
  then have "i = n" by simp
  then show ?case using 0 by (auto simp: shrunk_refl)
next
  case (Suc d)
  let ?L = "max_points_in_way opts"
  have i: "i < n" "i < length (osm_ways s)" using Suc by auto
  have up: "[i..<n] = i # [Suc i..<n]" using i by (simp add: upt_conv_Cons)
  obtain s1 where st: "split_long_way opts i s = Inr s1"
    using split_long_way_total[OF L] by blast
  note sh = split_long_way_short[OF L i(2) st]
  have n1: "n \<le> length (osm_ways s1)" using shrunk_length[OF sh(1)] Suc.prems by simp
  have inv1: "\<forall>j<length (osm_ways s1). j < Suc i \<or> n \<le> j
                 \<longrightarrow> int (length (way_nodes (osm_ways s1 ! j))) \<le> ?L"
  proof (intro allI impI)
    fix j assume j: "j < length (osm_ways s1)" "j < Suc i \<or> n \<le> j"
    show "int (length (way_nodes (osm_ways s1 ! j))) \<le> ?L"
    proof (cases "j = i")
      case True
      then show ?thesis using sh(2) by simp
    next
      case False
      show ?thesis
      proof (rule ccontr)
        assume "\<not> ?thesis"
        then have "?L < int (length (way_nodes (osm_ways s1 ! j)))" by simp
        from shrunk_long[OF sh(1) j(1) this] show False using Suc.prems(3) j(2) False by auto
      qed
    qed
  qed
  obtain s' where r: "split_long_ways_over opts [Suc i..<n] s1 = Inr s'"
    and sh': "shrunk ?L (osm_ways s1) (osm_ways s')"
    and all: "\<forall>j<length (osm_ways s'). int (length (way_nodes (osm_ways s' ! j))) \<le> ?L"
  proof -
    have d: "d = n - Suc i" using Suc.hyps(2) by simp
    have le: "Suc i \<le> n" using i by simp
    from Suc.hyps(1)[OF d le n1 inv1] show ?thesis using that by blast
  qed
  show ?case using st r up all shrunk_trans[OF sh(1) sh'] by simp
qed


lemma split_chunks_example: "split_chunks 2 [1, 2, 3] = Inr [[1, 2], [2, 3], [3]]"
  by (simp add: split_chunks_def range_step_def upt_rec numeral_2_eq_2)

lemma split_example_step:
  "split_long_way split_example_options 0 split_example = Inr split_example_result"
  by (simp add: split_example_def split_example_options_def never_merge_def
     split_long_way_def split_way_def split_chunks_example split_example_result_def
     OsmWay_def split_assign_def set_way_nodes_def move_node_def node_addparent_def node_removeparent_def
     parent_relations_def split_way_in_relation_def add_way_part_def way_addparent_def
     relation_append_member_def get_member_role_def insert_commute)

lemma split_chunks_2L_minus_1:
  assumes "2 \<le> L" and "int (length nds) = 2 * L - 1"
  shows "split_chunks L nds
           = Inr [take (nat L) nds, take (nat L) (drop (nat L - 1) nds), [last nds]]"
proof -
  define m where "m = nat (L - 1)"
  have m: "0 < m" "nat L = Suc m" "length nds = 2 * m + 1" "nat (L - 1) = m"
    using assms by (auto simp: m_def)
  have "(length nds + m - 1) div m = 3"
  proof -
    have "length nds + m - 1 = 3 * m" using m by simp
    then show ?thesis using m(1) by simp
  qed
  then have up: "[0..<(length nds + m - 1) div m] = [0, 1, 2]"
    by (simp add: upt_rec numeral_3_eq_3)
  have ne: "nds \<noteq> []" using m by auto
  have "drop (2 * m) nds = [last nds]"
    using m(3) ne by (metis Suc_eq_plus1 append_butlast_last_id append_eq_conv_conj diff_Suc_1
        length_butlast)
  then have l: "take (Suc m) (drop (2 * m) nds) = [last nds]" by simp
  show ?thesis
    using m up l assms(1) by (simp add: split_chunks_def range_step_def mult.commute)
qed

text \<open>
  Claim C9. With a limit below 2, \<open>split_long_ways\<close> returns the store as it is, and
  raises no error: the ways, their node sequences, the parents of the nodes and the
  members of the relations are those of before.
\<close>

theorem split_long_ways_disabled:
  "max_points_in_way opts < 2 \<Longrightarrow> split_long_ways opts s = Inr s"
  by (simp add: split_long_ways_def)

theorem split_long_ways_disabled_witness:
  "max_points_in_way split_disabled_options < 2
   \<and> split_long_ways split_disabled_options split_example = Inr split_example"
proof -
  have h: "max_points_in_way split_disabled_options < 2"
    by (simp add: split_disabled_options_def)
  show ?thesis using h split_long_ways_disabled[OF h, of split_example] by simp
qed

text \<open>
  Claim C1 fails on the code. With the limit \<open>L = 2\<close>, the way of \<open>2L - 1 = 3\<close>
  nodes \<open>[1, 2, 3]\<close> is split into three ways, \<open>[1, 2]\<close>, \<open>[2, 3]\<close> and \<open>[3]\<close>:
  the range of chunk starts \<^verbatim>\<open>range(0, len(way.nodes), L - 1)\<close> includes the position
  of the last node, so a third way of that single node is created, and the relation gets
  three members. The lemma \<open>split_chunks_2L_minus_1\<close> shows the three chunks for every
  limit \<open>L \<ge> 2\<close>.
\<close>

theorem split_long_ways_three_parts:
  "length (way_nodes (osm_ways split_example ! 0)) = 2 * 2 - 1
   \<and> max_points_in_way split_example_options = 2
   \<and> split_long_ways split_example_options split_example = Inr split_example_result
   \<and> map way_nodes (osm_ways split_example_result) = [[1, 2], [2, 3], [3]]
   \<and> map relation_members (osm_relations split_example_result)
       = [[(WayRef 4, ''outer''), (WayRef 6, ''outer''), (WayRef 7, ''outer'')]]"
proof -
  have ts: "tail_short split_example_options 1 split_example"
    by (simp add: tail_short_def split_example_def)
  have "split_long_ways split_example_options split_example
          = split_long_ways_over split_example_options [0..<1] split_example"
    using split_long_ways_from_over[OF ts, of 0]
    by (simp add: split_long_ways_def split_example_options_def)
  then have "split_long_ways split_example_options split_example = Inr split_example_result"
    by (simp add: split_example_step)
  then show ?thesis
    by (simp add: split_example_def split_example_options_def split_example_result_def)
qed


text \<open>
  Claim C10. With a limit of at least 2, \<open>split_long_ways\<close> returns a store, without an
  error. Its loop over the growing list of ways does what one visit of each position of
  the original list does: no way appended during the loop is split. Every way appended
  has at most \<open>max_points_in_way\<close> nodes, and so has every way of the store afterwards.
\<close>

theorem split_long_ways_visits_once:
  assumes "2 \<le> max_points_in_way opts"
  shows "\<exists>s'. split_long_ways opts s = Inr s'
           \<and> split_long_ways_over opts [0..<length (osm_ways s)] s = Inr s'
           \<and> length (osm_ways s) \<le> length (osm_ways s')
           \<and> (\<forall>w\<in>set (drop (length (osm_ways s)) (osm_ways s')).
                 int (length (way_nodes w)) \<le> max_points_in_way opts)
           \<and> (\<forall>w\<in>set (osm_ways s').
                 int (length (way_nodes w)) \<le> max_points_in_way opts)"
proof -
  let ?n = "length (osm_ways s)"
  have ts: "tail_short opts ?n s" by (simp add: tail_short_def)
  have eq: "split_long_ways opts s = split_long_ways_over opts [0..<?n] s"
    using assms split_long_ways_from_over[OF ts, of 0] by (simp add: split_long_ways_def)
  obtain s' where r: "split_long_ways_over opts [0..<?n] s = Inr s'"
    and sh: "shrunk (max_points_in_way opts) (osm_ways s) (osm_ways s')"
    and all: "\<forall>j<length (osm_ways s'). int (length (way_nodes (osm_ways s' ! j))) \<le> max_points_in_way opts"
    using split_long_ways_over_short[OF assms, of 0 ?n s] by auto
  have all': "\<forall>w\<in>set (osm_ways s'). int (length (way_nodes w)) \<le> max_points_in_way opts"
    using all by (auto simp: in_set_conv_nth)
  then have "\<forall>w\<in>set (drop ?n (osm_ways s')). int (length (way_nodes w)) \<le> max_points_in_way opts"
    by (meson in_set_dropD)
  then show ?thesis using eq r all' shrunk_length[OF sh] by simp
qed


theorem split_long_ways_visits_once_witness:
  "2 \<le> max_points_in_way split_example_options
   \<and> (\<exists>s'. split_long_ways split_example_options split_example = Inr s'
         \<and> split_long_ways_over split_example_options [0..<1] split_example = Inr s'
         \<and> 1 \<le> length (osm_ways s')
         \<and> (\<forall>w\<in>set (osm_ways s'). int (length (way_nodes w)) \<le> 2))"
proof -
  have h: "2 \<le> max_points_in_way split_example_options"
    by (simp add: split_example_options_def)
  have l: "length (osm_ways split_example) = 1" "max_points_in_way split_example_options = 2"
    by (simp_all add: split_example_def split_example_options_def)
  show ?thesis
    using h split_long_ways_visits_once[OF h, of split_example] unfolding l by auto
qed

section \<open>Properties of the polygon parser\<close>



text \<open>
  The assumption on a polygon of one ring is needed. The branch for a single ring of at
  most \<open>max_points_in_way\<close> points comes before the test of the ring's type and hands
  the ring to the linestring parser: were the ring a point geometry, it would become a
  way of one node.
\<close>

lemma parse_polygon_single_point_ring:
  "parse_polygon never_merge (Some point_ring_polygon) Map.empty init_osm_data
     = Inr (Some (Way \<lparr>way_id = 2, way_tags = Map.empty, way_nodes = [1], way_parents = {}\<rparr>),
            \<lparr>osm_nodes =
               [\<lparr>point_id = 1, point_x = 11, point_y = 25, point_tags = Map.empty,
                 point_parents = {WayRef 2}\<rparr>],
             unique_node_index = [Coordinates 1 2 \<mapsto> [0]],
             osm_ways =
               [\<lparr>way_id = 2, way_tags = Map.empty, way_nodes = [1], way_parents = {}\<rparr>],
             osm_relations = [], element_id_counter = 2, warnings = []\<rparr>)"
  by (simp add: point_ring_polygon_def GetGeometryCount_def GetPointCount_def GetGeometryRef_def
      never_merge_def init_osm_data_def add_node_def intern_node_def unique_node_id_def
      append_node_def OsmPoint_def parent_ways_def new_way_def add_way_def OsmWay_def
      set_way_nodes_def node_addparent_def)

section \<open>Properties of the multipolygon branch\<close>

text \<open>
  Claim C7 fails on the code, for a multipolygon with a part that has no ring
  (\<^verbatim>\<open>MULTIPOLYGON (EMPTY, ((200 0, 300 0, 300 100, 200 0)))\<close>). The loop over the
  parts reads \<^verbatim>\<open>GetGeometryRef(0)\<close> of every part and hands it to the linestring
  parser; for the part with no ring that is \<^verbatim>\<open>None\<close>, and the parser raises
  \<^verbatim>\<open>AttributeError\<close>: no relation is returned. The polygon parser tests for a
  polygon with no ring, and skips the same part with a warning when it is parsed alone.
\<close>

theorem parse_collection_empty_part_raises:
  "GetGeometryType empty_part_multipolygon = wkbMultiPolygon
   \<and> GetGeometryCount empty_part_multipolygon = 2
   \<and> parse_collection no_parse_geometry never_merge empty_part_multipolygon Map.empty
        init_osm_data = Inl AttributeError
   \<and> parse_polygon never_merge (GetGeometryRef empty_part_multipolygon 0) Map.empty
        init_osm_data
      = Inr (None, init_osm_data\<lparr>warnings := [''Polygon with no rings?'']\<rparr>)"
  by (simp add: empty_part_multipolygon_def GetGeometryCount_def parse_collection_def
      add_relation_def OsmRelation_def GetGeometryRef_def warning_def init_osm_data_def)

subsection \<open>Multipolygons whose parts have rings\<close>

text \<open>
  The two loops of the branch do to the rings of the parts, in their order, what
  \<open>link_rings\<close> says: each ring is parsed as a linestring and the way that results is
  appended to the members of the relation, the first ring of a part as \<open>outer\<close> and
  the others as \<open>inner\<close>.
\<close>

lemma parse_inner_rings_link:
  "parse_inner_rings opts relation rings s
     = link_rings opts relation (map (\<lambda>ring. (ring, ''inner'')) rings) s"
  by (induction rings arbitrary: relation s)
    (auto split: sum.splits prod.splits simp del: parse_linestring.simps)

lemma link_rings_append:
  "link_rings opts relation (xs @ ys) s
     = (case link_rings opts relation xs s of
          Inl e \<Rightarrow> Inl e
        | Inr (relation1, s1) \<Rightarrow> link_rings opts relation1 ys s1)"
  by (induction xs arbitrary: relation s)
    (auto split: sum.splits prod.splits simp del: parse_linestring.simps)

lemma rings_with_roles_Cons:
  "GetGeometries polygon = ring # rings \<Longrightarrow>
   rings_with_roles polygon = (ring, ''outer'') # map (\<lambda>ring. (ring, ''inner'')) rings"
  by (simp add: rings_with_roles_def ring_roles_def zip_replicate2)

lemma parse_polygon_parts_link:
  "\<forall>p\<in>set parts. GetGeometries p \<noteq> [] \<Longrightarrow>
   parse_polygon_parts opts relation parts s
     = link_rings opts relation (concat (map rings_with_roles parts)) s"
proof (induction parts arbitrary: relation s)
  case Nil
  then show ?case by simp
next
  case (Cons polygon parts)
  then obtain ring rings where g: "GetGeometries polygon = ring # rings"
    by (cases "GetGeometries polygon") auto
  have ref: "GetGeometryRef polygon 0 = Some ring" by (simp add: GetGeometryRef_def g)
  have ih: "parse_polygon_parts opts relation' parts s'
              = link_rings opts relation' (concat (map rings_with_roles parts)) s'"
    for relation' s'
    using Cons by simp
  show ?case
    by (simp add: ref g rings_with_roles_Cons[OF g] parse_inner_rings_link link_rings_append ih
        split: sum.splits prod.splits del: parse_linestring.simps)
qed

lemma parse_collection_multipolygon_links:
  assumes "GetGeometryType g = wkbMultiPolygon \<or> GetGeometryType g = wkbMultiPolygon25D"
    and "GetGeometryCount g > 1"
    and "\<forall>polygon\<in>set (GetGeometries g). GetGeometryCount polygon \<noteq> 0"
  shows "parse_collection parse_geometry opts g tgs s
           = (case add_relation tgs s of
                (relation, s1) \<Rightarrow>
                  (case link_rings opts relation
                          (concat (map rings_with_roles (GetGeometries g))) s1 of
                     Inl e \<Rightarrow> Inl e
                   | Inr (relation1, s2) \<Rightarrow> Inr ([Some (Relation relation1)], s2)))"
proof -
  have "\<forall>p\<in>set (GetGeometries g). GetGeometries p \<noteq> []"
    using assms(3) by (simp add: GetGeometryCount_def)
  note pl = parse_polygon_parts_link[OF this]
  show ?thesis
    using assms(1,2) by (auto simp: parse_collection_def pl split: prod.splits)
qed

text \<open>
  With exactly one part, the branch returns what the polygon parser returns for that
  part, as a list of one element.
\<close>

lemma parse_collection_multipolygon_single:
  assumes "GetGeometryType g = wkbMultiPolygon \<or> GetGeometryType g = wkbMultiPolygon25D"
    and "GetGeometryCount g = 1"
  shows "parse_collection parse_geometry opts g tgs s
           = (case parse_polygon opts (Some (GetGeometries g ! 0)) tgs s of
                Inl e \<Rightarrow> Inl e
              | Inr (result, s1) \<Rightarrow> Inr ([result], s1))"
  using assms by (auto simp: parse_collection_def GetGeometryRef_def GetGeometryCount_def
      simp del: parse_polygon.simps)

subsection \<open>The relation of a multipolygon\<close>

lemma ways_extend_refl: "ways_extend ws ws"
  by (auto simp: ways_extend_def)

lemma ways_extend_trans:
  assumes "ways_extend a b" "ways_extend b c"
  shows "ways_extend a c"
  unfolding ways_extend_def
proof
  fix w assume "w \<in> set a"
  then obtain w1 where w1: "w1 \<in> set b" "way_id w1 = way_id w" "way_parents w \<subseteq> way_parents w1"
    using assms(1) unfolding ways_extend_def by blast
  then obtain w2 where w2: "w2 \<in> set c" "way_id w2 = way_id w1" "way_parents w1 \<subseteq> way_parents w2"
    using assms(2) unfolding ways_extend_def by blast
  show "\<exists>w'\<in>set c. way_id w' = way_id w \<and> way_parents w \<subseteq> way_parents w'"
    using w1 w2 by (intro bexI[of _ w2]) auto
qed

lemma ways_extend_map:
  "(\<And>w. way_id (f w) = way_id w \<and> way_parents w \<subseteq> way_parents (f w)) \<Longrightarrow>
   ways_extend ws (map f ws @ extra)"
  unfolding ways_extend_def by (auto simp: image_iff) 

lemma merge_duplicate_node_total:
  "\<forall>i\<in>set bucket. i < length (osm_nodes s) \<Longrightarrow>
   \<exists>r. merge_duplicate_node opts tgs bucket s = Inr r"
  by (induction bucket) (auto split: option.splits)

lemma intern_node_total:
  assumes "index_in_range s"
  shows "\<exists>n s'. intern_node opts key x y tgs s = Inr (n, s')"
proof (cases "unique_node_index s key")
  case None
  then show ?thesis by (simp add: intern_node_def)
next
  case (Some b)
  have "\<forall>i\<in>set b. i < length (osm_nodes s)"
    using index_in_range_bucket[OF assms Some] by simp
  then obtain r where "merge_duplicate_node opts tgs b s = Inr r"
    using merge_duplicate_node_total by blast
  then show ?thesis using Some
    by (cases r) (auto simp: intern_node_def intro: prod.exhaust)
qed

lemma add_node_total:
  assumes "index_in_range s"
    and "\<not> isl (round_number opts x)" and "\<not> isl (round_number opts y)"
  shows "\<exists>n s'. add_node opts x y tgs is_way_member s = Inr (n, s')"
proof -
  obtain rx where "round_number opts x = Inr rx"
    using assms(2) by (cases "round_number opts x") auto
  moreover obtain ry where "round_number opts y = Inr ry"
    using assms(3) by (cases "round_number opts y") auto
  ultimately show ?thesis
    using intern_node_total[OF assms(1)] by (simp add: add_node_def)
qed

lemma add_node_frame:
  assumes "add_node opts x y tgs is_way_member s = Inr (n, s')"
  shows "osm_ways s' = osm_ways s" and "osm_relations s' = osm_relations s"
  using assms merge_duplicate_node_frame[of opts tgs _ s n s']
  by (auto simp: add_node_def intern_node_def append_node_def OsmPoint_def
      split: option.splits sum.splits)

lemma intern_points_ok:
  "index_in_range s \<Longrightarrow> set pot \<subseteq> set (osm_ways s) \<Longrightarrow>
   list_all (\<lambda>p. \<not> isl (round_number opts (fst p)) \<and> \<not> isl (round_number opts (snd p))) pts \<Longrightarrow>
   \<exists>nds' pot' s'. intern_points opts pts prev nds pot s = Inr (nds', pot', s')
      \<and> index_in_range s' \<and> osm_ways s' = osm_ways s \<and> osm_relations s' = osm_relations s
      \<and> set pot' \<subseteq> set (osm_ways s)"
proof (induction pts arbitrary: prev nds pot s)
  case Nil
  then show ?case by simp
next
  case (Cons p pts)
  have q: "\<not> isl (round_number opts (fst p))" "\<not> isl (round_number opts (snd p))"
    and qs: "list_all (\<lambda>p. \<not> isl (round_number opts (fst p)) \<and> \<not> isl (round_number opts (snd p))) pts"
    using Cons.prems(3) by simp_all
  obtain node s1 where a: "add_node opts (fst p) (snd p) Map.empty True s = Inr (node, s1)"
    using add_node_total[OF Cons.prems(1) q] by blast
  have i1: "index_in_range s1" by (rule add_node_index_in_range[OF Cons.prems(1) a])
  note f = add_node_frame[OF a]
  have pw: "set (parent_ways node s1) \<subseteq> set (osm_ways s1)" by (auto simp: parent_ways_def)
  show ?case
  proof (cases "prev = None \<or> prev \<noteq> Some (point_id node)")
    case True
    let ?pot = "if prev = None then parent_ways node s1
                else if point_parents node = {} \<and> pot \<noteq> [] then [] else pot"
    have "set ?pot \<subseteq> set (osm_ways s1)" using pw Cons.prems(2) f by auto
    from Cons.IH[OF i1 this qs, of "Some (point_id node)" "nds @ [point_id node]"]
    show ?thesis using a True f by auto
  next
    case False
    have "set pot \<subseteq> set (osm_ways s1)" using Cons.prems(2) f by simp
    from Cons.IH[OF i1 this qs, of prev nds]
    show ?thesis using a False f by auto
  qed
qed

lemma set_verify_duplicate_ways:
  "fst ` set (verify_duplicate_ways pot nds) \<subseteq> set pot"
  by (induction pot) auto

lemma index_in_range_cong:
  "unique_node_index s' = unique_node_index s \<Longrightarrow> length (osm_nodes s') = length (osm_nodes s)
   \<Longrightarrow> index_in_range s' = index_in_range s"
  by (simp add: index_in_range_def)

lemma merge_duplicate_way_ok:
  "merge_duplicate_way opts tgs dups s = Some (w, s') \<Longrightarrow> fst ` set dups \<subseteq> set (osm_ways s) \<Longrightarrow>
   index_in_range s' = index_in_range s \<and> osm_relations s' = osm_relations s
   \<and> w \<in> set (osm_ways s') \<and> ways_extend (osm_ways s) (osm_ways s')"
proof (induction dups)
  case Nil
  then show ?case by simp
next
  case (Cons d dups)
  show ?case
  proof (cases "merge_tags opts (snd d) (way_tags (fst d)) tgs")
    case None
    then show ?thesis using Cons by simp
  next
    case (Some m)
    then have w: "w = (fst d)\<lparr>way_tags := m\<rparr>" and s': "s' = set_way_tags (way_id (fst d)) m s"
      using Cons.prems(1) by simp_all
    have "fst d \<in> set (osm_ways s)" using Cons.prems(2) by simp
    then have "w \<in> set (osm_ways s')" unfolding w s' set_way_tags_def
      by (auto simp: image_iff intro!: bexI[of _ "fst d"])
    moreover have "ways_extend (osm_ways s) (osm_ways s')"
      unfolding s' set_way_tags_def
      using ways_extend_map[of "\<lambda>w. if way_id w = way_id (fst d) then w\<lparr>way_tags := m\<rparr> else w"
          "osm_ways s" "[]"]
      by simp
    ultimately show ?thesis
      unfolding s' by (simp add: set_way_tags_def index_in_range_def)
  qed
qed

lemma fold_node_addparent_frame:
  "osm_ways (fold (\<lambda>node. node_addparent node p) nds s) = osm_ways s
   \<and> osm_relations (fold (\<lambda>node. node_addparent node p) nds s) = osm_relations s
   \<and> unique_node_index (fold (\<lambda>node. node_addparent node p) nds s) = unique_node_index s
   \<and> length (osm_nodes (fold (\<lambda>node. node_addparent node p) nds s)) = length (osm_nodes s)"
  by (induction nds arbitrary: s) (simp_all add: node_addparent_def)

lemma new_way_ok:
  assumes "new_way tgs nds s = (w, s')"
  shows "index_in_range s' = index_in_range s" and "osm_relations s' = osm_relations s"
    and "w \<in> set (osm_ways s')" and "ways_extend (osm_ways s) (osm_ways s')"
proof -
  let ?way = "\<lparr>way_id = element_id_counter s + 1, way_tags = tgs, way_nodes = [],
               way_parents = {}\<rparr>"
  let ?s1 = "s\<lparr>element_id_counter := element_id_counter s + 1,
               osm_ways := osm_ways s @ [?way]\<rparr>"
  let ?s2 = "set_way_nodes (way_id ?way) nds ?s1"
  have w: "w = ?way\<lparr>way_nodes := nds\<rparr>"
    and s': "s' = fold (\<lambda>node. node_addparent node (WayRef (way_id ?way))) nds ?s2"
    using assms by (simp_all add: new_way_def add_way_def OsmWay_def)
  note fr = fold_node_addparent_frame[of "WayRef (way_id ?way)" nds ?s2]
  have ws: "osm_ways s' = map (\<lambda>w. if way_id w = way_id ?way then w\<lparr>way_nodes := nds\<rparr> else w)
                             (osm_ways s) @ [?way\<lparr>way_nodes := nds\<rparr>]"
    using fr unfolding s' by (simp add: set_way_nodes_def)
  show "w \<in> set (osm_ways s')" unfolding ws w by simp
  show "ways_extend (osm_ways s) (osm_ways s')" unfolding ws
    by (rule ways_extend_map) simp
  show "osm_relations s' = osm_relations s" using fr unfolding s' by (simp add: set_way_nodes_def)
  show "index_in_range s' = index_in_range s"
    using fr unfolding s' by (intro index_in_range_cong) (simp_all add: set_way_nodes_def)
qed

lemma parse_linestring_ok:
  assumes "index_in_range s" and "points_quantize opts g"
  shows "\<exists>w s'. parse_linestring opts (Some g) tgs s = Inr (w, s')
           \<and> index_in_range s' \<and> osm_relations s' = osm_relations s
           \<and> w \<in> set (osm_ways s') \<and> ways_extend (osm_ways s) (osm_ways s')"
proof -
  have q: "list_all (\<lambda>p. \<not> isl (round_number opts (fst p)) \<and> \<not> isl (round_number opts (snd p)))
             (GetPoints g)"
    using assms(2) by (simp add: points_quantize_def)
  obtain nds pot s1 where ip: "intern_points opts (GetPoints g) None [] [] s = Inr (nds, pot, s1)"
    and i1: "index_in_range s1" and w1: "osm_ways s1 = osm_ways s"
    and r1: "osm_relations s1 = osm_relations s" and pot: "set pot \<subseteq> set (osm_ways s)"
    using intern_points_ok[OF assms(1) _ q, of "[]" None "[]"] by auto
  show ?thesis
  proof (cases "merge_duplicate_way opts tgs (verify_duplicate_ways pot nds) s1")
    case None
    obtain w s' where nw: "new_way tgs nds s1 = (w, s')" by force
    show ?thesis using ip None nw new_way_ok[OF nw] i1 w1 r1 by simp
  next
    case (Some r)
    obtain w s' where r: "r = (w, s')" by force
    have "fst ` set (verify_duplicate_ways pot nds) \<subseteq> set (osm_ways s1)"
      using set_verify_duplicate_ways[of pot nds] pot w1 by auto
    from merge_duplicate_way_ok[OF Some[unfolded r] this]
    show ?thesis using ip Some r i1 w1 r1 by simp
  qed
qed

lemma building_parse_linestring:
  assumes "building others relation s" and "points_quantize opts g"
  shows "\<exists>w s'. parse_linestring opts (Some g) tgs s = Inr (w, s')
           \<and> building others relation s' \<and> w \<in> set (osm_ways s')"
proof -
  have i: "index_in_range s" using assms by (simp add: building_def)
  obtain w s' where p: "parse_linestring opts (Some g) tgs s = Inr (w, s')"
    and i': "index_in_range s'" and r': "osm_relations s' = osm_relations s"
    and w: "w \<in> set (osm_ways s')" and ext: "ways_extend (osm_ways s) (osm_ways s')"
    using parse_linestring_ok[OF i assms(2), of tgs] by blast
  have "\<exists>w\<in>set (osm_ways s'). fst m = WayRef (way_id w)
            \<and> RelationRef (relation_id relation) \<in> way_parents w"
    if m: "m \<in> set (relation_members relation)" for m
  proof -
    obtain w0 where w0: "w0 \<in> set (osm_ways s)" "fst m = WayRef (way_id w0)"
      "RelationRef (relation_id relation) \<in> way_parents w0"
      using assms m unfolding building_def by blast
    obtain w1 where "w1 \<in> set (osm_ways s')" "way_id w1 = way_id w0"
      "way_parents w0 \<subseteq> way_parents w1"
      using ext w0(1) unfolding ways_extend_def by blast
    then show ?thesis using w0 by (intro bexI[of _ w1]) auto
  qed
  then have "building others relation s'"
    using assms i' r' by (simp add: building_def)
  then show ?thesis using p w by blast
qed

lemma building_add_relation_member:
  assumes b: "building others relation s" and w: "w \<in> set (osm_ways s)"
    and a: "add_relation_member relation w role s = (relation1, s1)"
  shows "building others relation1 s1"
    and "relation_id relation1 = relation_id relation"
    and "relation_tags relation1 = relation_tags relation"
    and "relation_members relation1 = relation_members relation @ [(WayRef (way_id w), role)]"
proof -
  let ?rid = "relation_id relation"
  let ?f = "\<lambda>w'. if way_id w' = way_id w
                   then w'\<lparr>way_parents := insert (RelationRef ?rid) (way_parents w')\<rparr> else w'"
  have rel1: "relation1 = relation\<lparr>relation_members :=
                 relation_members relation @ [(WayRef (way_id w), role)]\<rparr>"
    using a by (simp add: add_relation_member_def)
  show "relation_id relation1 = relation_id relation"
    and "relation_tags relation1 = relation_tags relation"
    and "relation_members relation1 = relation_members relation @ [(WayRef (way_id w), role)]"
    by (simp_all add: rel1)
  have ways1: "osm_ways s1 = map ?f (osm_ways s)"
    and nodes1: "osm_nodes s1 = osm_nodes s" "unique_node_index s1 = unique_node_index s"
    and rels1: "osm_relations s1 = map (\<lambda>r. if relation_id r = ?rid
        then r\<lparr>relation_members := relation_members r @ [(WayRef (way_id w), role)]\<rparr> else r)
        (osm_relations s)"
    using a by (auto simp: add_relation_member_def relation_append_member_def way_addparent_def)
  have i1: "index_in_range s1" using b nodes1 by (simp add: building_def index_in_range_def)
  have "map (\<lambda>r. if relation_id r = ?rid
        then r\<lparr>relation_members := relation_members r @ [(WayRef (way_id w), role)]\<rparr> else r)
        others = others"
    using b by (intro map_idI) (auto simp: building_def)
  then have r1: "osm_relations s1 = others @ [relation1]"
    using b rels1 rel1 by (simp add: building_def)
  have o1: "\<forall>r\<in>set others. relation_id r \<noteq> relation_id relation1"
    using b rel1 by (simp add: building_def)
  have m1: "\<exists>w'\<in>set (osm_ways s1). fst m = WayRef (way_id w')
              \<and> RelationRef (relation_id relation1) \<in> way_parents w'"
    if m: "m \<in> set (relation_members relation1)" for m
  proof (cases "m \<in> set (relation_members relation)")
    case True
    then obtain w0 where w0: "w0 \<in> set (osm_ways s)" "fst m = WayRef (way_id w0)"
      "RelationRef ?rid \<in> way_parents w0"
      using b unfolding building_def by blast
    have "?f w0 \<in> set (osm_ways s1)" using w0(1) ways1 by simp
    then show ?thesis using w0 rel1 by (intro bexI[of _ "?f w0"]) auto
  next
    case False
    then have "m = (WayRef (way_id w), role)" using m rel1 by simp
    moreover have "?f w \<in> set (osm_ways s1)" using w ways1 by simp
    ultimately show ?thesis using rel1 by (intro bexI[of _ "?f w"]) auto
  qed
  show "building others relation1 s1"
    using i1 r1 o1 m1 by (simp add: building_def)
qed

lemma link_rings_ok:
  "building others relation s \<Longrightarrow> \<forall>ring\<in>set rings. points_quantize opts (fst ring) \<Longrightarrow>
   \<exists>relation' s'. link_rings opts relation rings s = Inr (relation', s')
      \<and> building others relation' s'
      \<and> relation_id relation' = relation_id relation
      \<and> relation_tags relation' = relation_tags relation
      \<and> map snd (relation_members relation')
          = map snd (relation_members relation) @ map snd rings"
proof (induction rings arbitrary: relation s)
  case Nil
  then show ?case by simp
next
  case (Cons ring rings)
  have q: "points_quantize opts (fst ring)"
    and qs: "\<forall>ring\<in>set rings. points_quantize opts (fst ring)"
    using Cons.prems(2) by simp_all
  obtain w s1 where p: "parse_linestring opts (Some (fst ring)) Map.empty s = Inr (w, s1)"
    and b1: "building others relation s1" and w: "w \<in> set (osm_ways s1)"
    using building_parse_linestring[OF Cons.prems(1) q] by blast
  obtain relation1 s2 where a: "add_relation_member relation w (snd ring) s1 = (relation1, s2)"
    by force
  note st = building_add_relation_member[OF b1 w a]
  obtain relation' s' where r: "link_rings opts relation1 rings s2 = Inr (relation', s')"
    and b': "building others relation' s'"
    and id': "relation_id relation' = relation_id relation1"
    and tg': "relation_tags relation' = relation_tags relation1"
    and mem': "map snd (relation_members relation')
                 = map snd (relation_members relation1) @ map snd rings"
    using Cons.IH[OF st(1) qs] by blast
  show ?case
    using p a r b' id' tg' mem' st by (simp del: parse_linestring.simps)
qed

lemma map_snd_rings_with_roles:
  "GetGeometries polygon \<noteq> [] \<Longrightarrow> map snd (rings_with_roles polygon) = ring_roles polygon"
  by (simp add: rings_with_roles_def ring_roles_def)

text \<open>
  Let the geometry be a multipolygon of more than one part, every part with at least
  one ring, and let the quantizer take the coordinates of all its points. In a store
  whose index is well formed and whose relations have identities already drawn from the
  counter, the parser returns one relation, which is new (its identity is the next of
  the counter) and is appended to the relations of the store, the others being left as
  they are; no duplicate is looked for. Its tags are the given tags; the roles of its
  members are, part after part, \<open>outer\<close> for the first ring and \<open>inner\<close> for each
  other ring; and each member is a way of the store that has the relation among its
  parents.
\<close>

lemma parse_collection_multipolygon_relation:
  assumes "GetGeometryType g = wkbMultiPolygon \<or> GetGeometryType g = wkbMultiPolygon25D"
    and "GetGeometryCount g > 1"
    and "\<forall>polygon\<in>set (GetGeometries g). GetGeometryCount polygon \<noteq> 0"
    and "\<forall>polygon\<in>set (GetGeometries g). \<forall>ring\<in>set (GetGeometries polygon).
           points_quantize opts ring"
    and "index_in_range s"
    and "\<forall>r\<in>set (osm_relations s). relation_id r \<le> element_id_counter s"
  shows "\<exists>relation s'.
           parse_collection parse_geometry opts g tgs s = Inr ([Some (Relation relation)], s')
         \<and> osm_relations s' = osm_relations s @ [relation]
         \<and> relation_id relation = element_id_counter s + 1
         \<and> relation_tags relation = tgs
         \<and> map snd (relation_members relation) = concat (map ring_roles (GetGeometries g))
         \<and> (\<forall>m\<in>set (relation_members relation).
               \<exists>w\<in>set (osm_ways s'). fst m = WayRef (way_id w)
                  \<and> RelationRef (relation_id relation) \<in> way_parents w)"
proof -
  let ?relation = "\<lparr>relation_id = element_id_counter s + 1, relation_tags = tgs,
                    relation_members = [], relation_parents = {}\<rparr>"
  let ?s1 = "s\<lparr>element_id_counter := element_id_counter s + 1,
               osm_relations := osm_relations s @ [?relation]\<rparr>"
  let ?rings = "concat (map rings_with_roles (GetGeometries g))"
  have ar: "add_relation tgs s = (?relation, ?s1)"
    by (simp add: add_relation_def OsmRelation_def)
  have "index_in_range ?s1" using assms(5) by (simp add: index_in_range_def)
  moreover have "\<forall>r\<in>set (osm_relations s). relation_id r \<noteq> relation_id ?relation"
    using assms(6) by auto
  ultimately have b: "building (osm_relations s) ?relation ?s1"
    by (simp add: building_def)
  have ne: "\<forall>p\<in>set (GetGeometries g). GetGeometries p \<noteq> []"
    using assms(3) by (simp add: GetGeometryCount_def)
  have q: "\<forall>ring\<in>set ?rings. points_quantize opts (fst ring)"
    using assms(4) by (auto simp: rings_with_roles_def dest!: set_zip_leftD)
  have roles: "map snd ?rings = concat (map ring_roles (GetGeometries g))"
    using ne by (simp add: map_concat map_snd_rings_with_roles cong: map_cong)
  from link_rings_ok[OF b q]
  obtain relation s' where
    r: "link_rings opts ?relation ?rings ?s1 = Inr (relation, s')"
    and b': "building (osm_relations s) relation s'"
    and id': "relation_id relation = relation_id ?relation"
    and tg': "relation_tags relation = relation_tags ?relation"
    and mem': "map snd (relation_members relation)
                 = map snd (relation_members ?relation) @ map snd ?rings"
    by blast
  have pc: "parse_collection parse_geometry opts g tgs s = Inr ([Some (Relation relation)], s')"
    using parse_collection_multipolygon_links[OF assms(1,2,3), of parse_geometry opts tgs s] ar r
    by simp
  show ?thesis
    using pc b' id' tg' mem' roles unfolding building_def
    by (intro exI[of _ relation] exI[of _ s']) simp
qed

text \<open>
  The multipolygon of a square with a hole and of a triangle, parsed into the empty
  store under the policy that always merges: the relation has the identity 1; its
  members are the way of the square as \<open>outer\<close>, the way of the hole as \<open>inner\<close>
  and the way of the triangle as \<open>outer\<close>, each way with the nodes of its ring.
\<close>

lemma parse_collection_two_parts:
  "\<exists>s'. parse_collection no_parse_geometry always_merge two_part_multipolygon Map.empty
           init_osm_data
         = Inr ([Some (Relation
                   \<lparr>relation_id = 1, relation_tags = Map.empty,
                    relation_members =
                      [(WayRef 6, ''outer''), (WayRef 10, ''inner''), (WayRef 14, ''outer'')],
                    relation_parents = {}\<rparr>)], s')
       \<and> map (\<lambda>w. (way_id w, way_nodes w)) (osm_ways s')
           = [(6, [2, 3, 4, 5, 2]), (10, [7, 8, 9, 7]), (14, [11, 12, 13, 11])]
       \<and> map (\<lambda>n. (point_id n, point_x n, point_y n)) (osm_nodes s')
           = [(2, 0, 0), (3, 100, 0), (4, 100, 100), (5, 0, 100), (7, 20, 20), (8, 40, 20),
              (9, 40, 40), (11, 200, 0), (12, 300, 0), (13, 300, 100)]"
  by (simp add: two_part_multipolygon_def square_ring_def hole_ring_def island_ring_def
      parse_collection_def GetGeometryCount_def GetGeometryRef_def add_relation_def
      OsmRelation_def always_merge_def init_osm_data_def add_node_def intern_node_def
      unique_node_id_def append_node_def OsmPoint_def parent_ways_def new_way_def add_way_def
      OsmWay_def set_way_nodes_def node_addparent_def add_relation_member_def
      relation_append_member_def way_addparent_def get_ordered_nodes_def is_closed_def)

end
